theory Spec2Isabelle
  imports Complex_Main "HOL-Library.Word" "HOL-Library.Signed_Division" "HOL-Library.Sublist"
begin

section \<open>Time values\<close>

text \<open>
  Go's \<^verbatim>\<open>time.Duration\<close> is an \<^verbatim>\<open>int64\<close> count of nanoseconds: arithmetic on it
  wraps around, and it is read as a signed number (\<open>sint\<close>).
  A \<^verbatim>\<open>time.Time\<close> is only ever copied by \<^verbatim>\<open>Update\<close> (from \<^verbatim>\<open>time.Now()\<close> into
  \<^verbatim>\<open>startTime\<close> and \<^verbatim>\<open>EndTime\<close>), so an instant is an opaque integer here.
\<close>

type_synonym Duration = "64 word"
type_synonym Time = int

definition Millisecond :: Duration where
  "Millisecond = 1000000"

definition Second :: Duration where
  "Second = 1000000000"

definition Minute :: Duration where
  "Minute = 60000000000"

text \<open>
  \<^verbatim>\<open>d.Milliseconds()\<close> is \<^verbatim>\<open>int64(d) / 1e6\<close>, Go's integer division, which truncates
  towards zero (\<open>sdiv\<close>).
\<close>

definition Milliseconds :: "Duration \<Rightarrow> int" where
  "Milliseconds d = sint d sdiv 1000000"

text \<open>
  \<^verbatim>\<open>d.Seconds()\<close> is a \<^verbatim>\<open>float64\<close>: \<^verbatim>\<open>float64(d / Second) + float64(d % Second) / 1e9\<close>.
  \<^verbatim>\<open>Update\<close> only compares it with the integers \<open>-4\<close> and \<open>0\<close>. The whole part is
  below \<open>2 ^ 53\<close> and converts exactly, the fraction lies strictly between \<open>-1\<close> and \<open>1\<close>
  with the sign of \<open>d\<close>, and rounding is monotone, so the float comparison with an
  integer \<open>k\<close> holds exactly when the exact quotient compares the same way. The model
  takes the exact quotient.
\<close>

definition Seconds :: "Duration \<Rightarrow> real" where
  "Seconds d = real_of_int (sint d) / 1000000000"

section \<open>Strings: \<^verbatim>\<open>strings.TrimSpace\<close> and \<^verbatim>\<open>time.Parse(time.DateOnly, _)\<close>\<close>

text \<open>
  A Go string is a sequence of bytes, here a \<open>char list\<close>. \<^verbatim>\<open>strings.TrimSpace\<close> removes
  the leading and trailing runes for which \<^verbatim>\<open>unicode.IsSpace\<close> holds. In UTF-8 such a rune
  is one of the byte sequences below (the six ASCII ones, U+0085, U+00A0, U+1680,
  U+2000 to U+200A, U+2028, U+2029, U+202F, U+205F, U+3000), and no other decoding of a
  string's first or last rune yields one of them.
\<close>

definition spaceRunes :: "string list" where
  "spaceRunes =
    [[CHR 0x09], [CHR 0x0A], [CHR 0x0B], [CHR 0x0C], [CHR 0x0D], [CHR 0x20],
     [CHR 0xC2, CHR 0x85], [CHR 0xC2, CHR 0xA0],
     [CHR 0xE1, CHR 0x9A, CHR 0x80],
     [CHR 0xE2, CHR 0x80, CHR 0x80], [CHR 0xE2, CHR 0x80, CHR 0x81],
     [CHR 0xE2, CHR 0x80, CHR 0x82], [CHR 0xE2, CHR 0x80, CHR 0x83],
     [CHR 0xE2, CHR 0x80, CHR 0x84], [CHR 0xE2, CHR 0x80, CHR 0x85],
     [CHR 0xE2, CHR 0x80, CHR 0x86], [CHR 0xE2, CHR 0x80, CHR 0x87],
     [CHR 0xE2, CHR 0x80, CHR 0x88], [CHR 0xE2, CHR 0x80, CHR 0x89],
     [CHR 0xE2, CHR 0x80, CHR 0x8A],
     [CHR 0xE2, CHR 0x80, CHR 0xA8], [CHR 0xE2, CHR 0x80, CHR 0xA9],
     [CHR 0xE2, CHR 0x80, CHR 0xAF], [CHR 0xE2, CHR 0x81, CHR 0x9F],
     [CHR 0xE3, CHR 0x80, CHR 0x80]]"

definition stripRune :: "string list \<Rightarrow> string \<Rightarrow> string option" where
  "stripRune rs s =
     (case filter (\<lambda>r. r \<noteq> [] \<and> prefix r s) rs of
        [] \<Rightarrow> None
      | r # _ \<Rightarrow> Some (drop (length r) s))"

lemma stripRune_shorter: "stripRune rs s = Some t \<Longrightarrow> length t < length s"
proof -
  assume a: "stripRune rs s = Some t"
  then obtain r qs where f: "filter (\<lambda>r. r \<noteq> [] \<and> prefix r s) rs = r # qs" and t: "t = drop (length r) s"
    by (auto simp: stripRune_def split: list.splits)
  from f have "r \<in> set (filter (\<lambda>r. r \<noteq> [] \<and> prefix r s) rs)"
    by simp
  then have "r \<noteq> []" and "prefix r s"
    by auto
  then have "0 < length r" and "length r \<le> length s"
    by (auto simp: prefix_def)
  with t a show ?thesis
    by (cases s) auto
qed

function trimLeftRunes :: "string list \<Rightarrow> string \<Rightarrow> string" where
  "trimLeftRunes rs s =
     (case stripRune rs s of None \<Rightarrow> s | Some t \<Rightarrow> trimLeftRunes rs t)"
  by pat_completeness auto
termination
  by (relation "measure (\<lambda>(rs, s). length s)") (auto dest: stripRune_shorter)

declare trimLeftRunes.simps [simp del]

definition TrimSpace :: "string \<Rightarrow> string" where
  "TrimSpace s = rev (trimLeftRunes (map rev spaceRunes) (rev (trimLeftRunes spaceRunes s)))"

text \<open>
  \<^verbatim>\<open>time.Parse\<close> with the layout \<^verbatim>\<open>time.DateOnly\<close> (\<^verbatim>\<open>"2006-01-02"\<close>), as Go's standard
  library defines it: a year of exactly four digits, \<^verbatim>\<open>-\<close>, a month of exactly two
  digits in \<open>1..12\<close>, \<^verbatim>\<open>-\<close>, a day of exactly two digits, no text after it, and the day
  within the month (\<^verbatim>\<open>day < 1 || day > daysIn(month, year)\<close> is "day out of range").
  The result is midnight UTC of that date; the model keeps the calendar date.
\<close>

record date =
  year :: nat
  month :: nat
  day :: nat

definition isDigit :: "char \<Rightarrow> bool" where
  "isDigit c = (48 \<le> (of_char c :: nat) \<and> (of_char c :: nat) \<le> 57)"

definition digit :: "char \<Rightarrow> nat" where
  "digit c = of_char c - 48"

definition isLeap :: "nat \<Rightarrow> bool" where
  "isLeap y = (y mod 4 = 0 \<and> (y mod 100 \<noteq> 0 \<or> y mod 400 = 0))"

definition daysIn :: "nat \<Rightarrow> nat \<Rightarrow> nat" where
  "daysIn m y =
     (if m = 2 \<and> isLeap y then 29
      else [31, 28, 31, 30, 31, 30, 31, 31, 30, 31, 30, 31] ! (m - 1))"

text \<open>\<^verbatim>\<open>getnum(s, true)\<close>: exactly two digits.\<close>

definition getnum :: "string \<Rightarrow> (nat \<times> string) option" where
  "getnum s =
     (case s of
        a # b # rest \<Rightarrow>
          if isDigit a \<and> isDigit b then Some (digit a * 10 + digit b, rest) else None
      | _ \<Rightarrow> None)"

text \<open>\<^verbatim>\<open>skip(value, "-")\<close>: the literal of the layout.\<close>

definition skipDash :: "string \<Rightarrow> string option" where
  "skipDash s = (case s of c # rest \<Rightarrow> if c = CHR ''-'' then Some rest else None | [] \<Rightarrow> None)"

text \<open>The four-digit year: \<^verbatim>\<open>len(value) < 4 || !isDigit(value, 0)\<close> fails, then \<^verbatim>\<open>atoi(value[0:4])\<close>.\<close>

definition longYear :: "string \<Rightarrow> (nat \<times> string) option" where
  "longYear s =
     (case s of
        a # b # c # d # rest \<Rightarrow>
          if isDigit a \<and> isDigit b \<and> isDigit c \<and> isDigit d
          then Some (digit a * 1000 + digit b * 100 + digit c * 10 + digit d, rest)
          else None
      | _ \<Rightarrow> None)"

definition Parse_DateOnly :: "string \<Rightarrow> date option" where
  "Parse_DateOnly v =
     (case longYear v of
        None \<Rightarrow> None
      | Some (y, v1) \<Rightarrow>
     (case skipDash v1 of
        None \<Rightarrow> None
      | Some v2 \<Rightarrow>
     (case getnum v2 of
        None \<Rightarrow> None
      | Some (mo, v3) \<Rightarrow>
          if mo \<le> 0 \<or> 12 < mo then None
          else
     (case skipDash v3 of
        None \<Rightarrow> None
      | Some v4 \<Rightarrow>
     (case getnum v4 of
        None \<Rightarrow> None
      | Some (d, v5) \<Rightarrow>
          if v5 \<noteq> [] then None
          else if d < 1 \<or> daysIn mo y < d then None
          else Some \<lparr>year = y, month = mo, day = d\<rparr>)))))"

section \<open>The model and its messages\<close>

text \<open>
  \<^verbatim>\<open>model\<close> as \<^verbatim>\<open>Update\<close> and \<^verbatim>\<open>View\<close> of \<^verbatim>\<open>bubble.go\<close> use it. Of the text widget the
  model keeps its value, of the progress bar its width. \<^verbatim>\<open>percent\<close> is a \<^verbatim>\<open>float64\<close>;
  the model keeps the exact value of the expression that \<^verbatim>\<open>Update\<close> assigns, which the
  code rounds. The claims below state of \<open>percent\<close> only that it is 0, that two stored
  values are equal, or how two values compare with each other or with 1: rounding is
  monotone and keeps 0 and 1, and \<open>1 - q\<close> with \<open>q\<close> above a ten-billionth does not round to
  1, so these statements hold of the rounded values too.
\<close>

record session =
  StartTime :: Time
  EndTime :: Time
  Duration :: Duration

record model =
  percent :: real
  progressWidth :: int
  textarea :: string
  timerDuration :: Duration
  remainingTime :: Duration
  startTime :: Time
  inSession :: bool
  opening' :: bool
  closing :: bool
  sessionType :: string
  sessions :: "session list"
  err :: string
  showSession :: bool
  printDifferentDate :: bool
  datePrint :: date

definition workSession :: string where
  "workSession = ''Work''"

definition breakSession :: string where
  "breakSession = ''Break''"

definition padding :: int where
  "padding = 2"

definition maxWidth :: int where
  "maxWidth = 80"

text \<open>
  A key press, as bubbletea delivers it: its type, its runes and the alt modifier.
  \<open>KeyOther\<close> stands for every other key type and carries the name bubbletea prints for
  it. \<^verbatim>\<open>msg.String()\<close> is \<open>keyString\<close>, and \<^verbatim>\<open>key.Matches(msg, b)\<close> holds when it is one
  of the keys of the binding.
\<close>

datatype KeyType = KeyRunes | KeyEnter | KeyCtrlC | KeyEsc | KeyOther string

record Key =
  Type :: KeyType
  Runes :: string
  Alt :: bool

definition keyString :: "Key \<Rightarrow> string" where
  "keyString k =
     (if Alt k then ''alt+'' else []) @
     (case Type k of
        KeyRunes \<Rightarrow> Runes k
      | KeyEnter \<Rightarrow> ''enter''
      | KeyCtrlC \<Rightarrow> ''ctrl+c''
      | KeyEsc \<Rightarrow> ''esc''
      | KeyOther nm \<Rightarrow> nm)"

record keyMap =
  Stop :: "string list"
  Quit :: "string list"

definition keys :: keyMap where
  "keys = \<lparr>Stop = [''x''], Quit = [''q'', ''esc'', ''ctrl+c'']\<rparr>"

definition Matches :: "Key \<Rightarrow> string list \<Rightarrow> bool" where
  "Matches k b = (keyString k \<in> set b)"

datatype Msg = KeyMsg Key | WindowSizeMsg int int | tickMsg | OtherMsg

text \<open>The command \<^verbatim>\<open>Update\<close> returns: \<^verbatim>\<open>nil\<close>, \<^verbatim>\<open>tea.Quit\<close> or \<^verbatim>\<open>tickCmd()\<close>.\<close>

datatype Cmd = nilCmd | tea_Quit | tickCmd

text \<open>
  What \<^verbatim>\<open>Update\<close> reads from outside the model during one call: the clock
  (\<^verbatim>\<open>time.Now()\<close>, read at most once per call), the outcome of \<^verbatim>\<open>saveSessions\<close> (its
  source is not part of \<^verbatim>\<open>bubble.go\<close>; \<open>None\<close> is a \<^verbatim>\<open>nil\<close> error, \<open>Some s\<close> an error
  whose \<^verbatim>\<open>Error()\<close> is \<open>s\<close>), and the text widget's own \<^verbatim>\<open>Update\<close>, as its effect on the
  widget's value.
\<close>

record env =
  now :: Time
  saveSessions :: "session list \<Rightarrow> string option"
  textarea_Update :: "Msg \<Rightarrow> string \<Rightarrow> string"

text \<open>
  \<^verbatim>\<open>initialModel\<close>: every field has Go's zero value but \<^verbatim>\<open>sessions\<close>, which is what
  \<^verbatim>\<open>loadSessions()\<close> returned.
\<close>

definition initialModel :: "session list \<Rightarrow> model" where
  "initialModel loaded =
     \<lparr>percent = 0, progressWidth = 0, textarea = [], timerDuration = 0, remainingTime = 0,
      startTime = 0, inSession = False, opening' = False, closing = False, sessionType = [],
      sessions = loaded, err = [], showSession = False, printDifferentDate = False,
      datePrint = \<lparr>year = 1, month = 1, day = 1\<rparr>\<rparr>"

text \<open>The phase of the timer, as \<^verbatim>\<open>View\<close> reads the three flags.\<close>

datatype Phase = Idle | Opening | Active | Closing

definition phase :: "model \<Rightarrow> Phase" where
  "phase m =
     (if \<not> inSession m then Idle
      else if opening' m then Opening
      else if closing m then Closing
      else Active)"

section \<open>The command line\<close>

text \<open>
  Modelled from the spec: \<^verbatim>\<open>checkValidMinute(&m, command)\<close>, which \<^verbatim>\<open>Update\<close> calls and
  whose source is missing. The spec (4.1): the single letter alone gives the default
  (the helper returns 0, which \<^verbatim>\<open>Update\<close> replaces by 25 or 5); a space and a positive
  integer give that integer; exactly 0 is "use default"; every other suffix is Invalid,
  with the reason "Invalid command" or "Invalid minute" written to \<^verbatim>\<open>m.err\<close>. The
  minutes are a Go \<^verbatim>\<open>int\<close> (64 bits), so a numeral beyond \<open>2 ^ 63 - 1\<close> is not an integer
  the helper can return.
\<close>

definition atoi :: "string \<Rightarrow> nat option" where
  "atoi s =
     (if s \<noteq> [] \<and> list_all isDigit s
      then Some (foldl (\<lambda>acc c. acc * 10 + digit c) 0 s)
      else None)"

definition checkValidMinute :: "model \<Rightarrow> string \<Rightarrow> model \<times> 64 word \<times> bool" where
  "checkValidMinute m command =
     (if length command = 1 then (m, 0, True)
      else if \<not> prefix '' '' (drop 1 command) then (m\<lparr>err := ''Invalid command''\<rparr>, 0, False)
      else
        (case atoi (drop 2 command) of
           None \<Rightarrow> (m\<lparr>err := ''Invalid minute''\<rparr>, 0, False)
         | Some n \<Rightarrow>
             if n < 2 ^ 63 then (m, of_nat n, True)
             else (m\<lparr>err := ''Invalid minute''\<rparr>, 0, False)))"

text \<open>
  A slice expression \<^verbatim>\<open>s[i:]\<close> panics when \<open>i\<close> exceeds the length. A panic is a result
  of its own.
\<close>

datatype panic = SliceBoundsOutOfRange

definition sliceFrom :: "nat \<Rightarrow> string \<Rightarrow> panic + string" where
  "sliceFrom i s = (if i \<le> length s then Inr (drop i s) else Inl SliceBoundsOutOfRange)"

text \<open>
  Lines 113 to 120 and 136 to 143 of \<^verbatim>\<open>bubble.go\<close>: the assignments that start a
  session; the two copies differ in the session type only.
\<close>

definition startSession :: "Time \<Rightarrow> string \<Rightarrow> 64 word \<Rightarrow> model \<Rightarrow> model" where
  "startSession t ty numOfMinutes m =
     m\<lparr>startTime := t,
       sessionType := ty,
       timerDuration := numOfMinutes * Minute,
       remainingTime := numOfMinutes * Minute + 3 * Second,
       percent := 0,
       inSession := True,
       opening' := True,
       closing := False\<rparr>"

text \<open>
  The \<^verbatim>\<open>switch\<close> on the submitted command line (lines 99 to 179). \<^verbatim>\<open>showHelper()\<close> only
  builds a string, which \<^verbatim>\<open>Update\<close> drops.
\<close>

definition handleCommand :: "env \<Rightarrow> string \<Rightarrow> model \<Rightarrow> panic + (model \<times> Cmd)" where
  "handleCommand e command m =
     (if command = ''q'' then Inr (m, tea_Quit)
      else if prefix ''s'' command then
        (case checkValidMinute m command of
           (m1, numOfMinutes, ok) \<Rightarrow>
             if \<not> ok then Inr (m1, nilCmd)
             else if \<not> inSession m1
             then Inr (startSession (now e) workSession
                         (if numOfMinutes = 0 then 25 else numOfMinutes) m1, tickCmd)
             else Inr (m1, nilCmd))
      else if prefix ''b'' command then
        (case checkValidMinute m command of
           (m1, numOfMinutes, ok) \<Rightarrow>
             if \<not> ok then Inr (m1, nilCmd)
             else if \<not> inSession m1
             then Inr (startSession (now e) breakSession
                         (if numOfMinutes = 0 then 5 else numOfMinutes) m1, tickCmd)
             else Inr (m1, nilCmd))
      else if prefix ''l'' command then
        (if command = ''l''
         then Inr (m\<lparr>printDifferentDate := False, showSession := True\<rparr>, nilCmd)
         else
           (case sliceFrom 1 command of
              Inl p \<Rightarrow> Inl p
            | Inr spacing \<Rightarrow>
                if \<not> prefix '' '' spacing then Inr (m\<lparr>err := ''Invalid command''\<rparr>, nilCmd)
                else
                  (case sliceFrom 2 command of
                     Inl p \<Rightarrow> Inl p
                   | Inr rest \<Rightarrow>
                       (case Parse_DateOnly (TrimSpace rest) of
                          None \<Rightarrow> Inr (m\<lparr>err := ''Invalid date format''\<rparr>, nilCmd)
                        | Some d \<Rightarrow>
                            Inr (m\<lparr>printDifferentDate := True, datePrint := d,
                                   showSession := True\<rparr>, nilCmd)))))
      else Inr (m\<lparr>err := ''Invalid command''\<rparr>, nilCmd))"

section \<open>Update\<close>

text \<open>
  The \<^verbatim>\<open>tea.KeyMsg\<close> case (lines 65 to 185). \<^verbatim>\<open>m.keys\<close> is the package variable \<^verbatim>\<open>keys\<close>:
  \<^verbatim>\<open>initialModel\<close> stores it and nothing assigns it again. The case
  \<^verbatim>\<open>tea.KeyType('q')\<close> is no key type that bubbletea sends, and it returns what the
  default case returns.
\<close>

definition onKey :: "env \<Rightarrow> Key \<Rightarrow> model \<Rightarrow> panic + (model \<times> Cmd)" where
  "onKey e k m =
     (if inSession m \<and> (opening' m \<or> closing m) then Inr (m, nilCmd)
      else if inSession m \<and> Matches k (Stop keys)
      then Inr (m\<lparr>inSession := False, textarea := []\<rparr>, nilCmd)
      else if inSession m \<and> Matches k (Quit keys) then Inr (m, tea_Quit)
      else if showSession m \<and> Matches k (Stop keys)
      then Inr (m\<lparr>showSession := False, textarea := []\<rparr>, nilCmd)
      else
        (case Type k of
           KeyCtrlC \<Rightarrow> Inr (m\<lparr>err := []\<rparr>, tea_Quit)
         | KeyEsc \<Rightarrow> Inr (m\<lparr>err := []\<rparr>, tea_Quit)
         | KeyEnter \<Rightarrow> handleCommand e (textarea m) (m\<lparr>err := [], textarea := []\<rparr>)
         | _ \<Rightarrow> Inr (m\<lparr>err := []\<rparr>, nilCmd)))"

text \<open>
  The \<^verbatim>\<open>tickMsg\<close> case (lines 194 to 233). Where \<^verbatim>\<open>timerDuration\<close> is below a millisecond
  the float division is by zero and gives an infinity or NaN, which this model does not
  represent; no theorem below reads \<open>percent\<close> there.
\<close>

definition onTick :: "env \<Rightarrow> model \<Rightarrow> model \<times> Cmd" where
  "onTick e m0 =
     (if \<not> inSession m0 then (m0, nilCmd)
      else
        let m = m0\<lparr>remainingTime := remainingTime m0 - 1 * Second\<rparr> in
        if opening' m then
          (if Milliseconds (remainingTime m) \<le> Milliseconds (timerDuration m)
           then (m\<lparr>opening' := False\<rparr>, tickCmd)
           else (m, tickCmd))
        else if Seconds (remainingTime m) \<le> - 4 then
          (let m1 = m\<lparr>closing := False, inSession := False\<rparr> in
           if sessionType m1 = workSession then
             (let m2 = m1\<lparr>sessions := sessions m1 @
                          [\<lparr>StartTime = startTime m1, EndTime = now e,
                            Duration = timerDuration m1\<rparr>]\<rparr>
              in case saveSessions e (sessions m2) of
                   None \<Rightarrow> (m2, nilCmd)
                 | Some msg \<Rightarrow> (m2\<lparr>err := msg\<rparr>, nilCmd))
           else (m1, nilCmd))
        else if Seconds (remainingTime m) \<le> 0 then (m\<lparr>closing := True\<rparr>, tickCmd)
        else
          (m\<lparr>percent := 1 - real_of_int (Milliseconds (remainingTime m)) /
                             real_of_int (Milliseconds (timerDuration m))\<rparr>, tickCmd))"

definition Update :: "env \<Rightarrow> Msg \<Rightarrow> model \<Rightarrow> panic + (model \<times> Cmd)" where
  "Update e msg m0 =
     (let m = m0\<lparr>textarea := textarea_Update e msg (textarea m0)\<rparr> in
      case msg of
        KeyMsg k \<Rightarrow> onKey e k m
      | WindowSizeMsg w h \<Rightarrow>
          Inr (m\<lparr>progressWidth := (if w - padding * 2 - 4 > maxWidth then maxWidth
                                    else w - padding * 2 - 4)\<rparr>, nilCmd)
      | tickMsg \<Rightarrow> Inr (onTick e m)
      | OtherMsg \<Rightarrow> Inr (m, nilCmd))"

text \<open>
  The messages arrive one at a time, each with what the outside answers during its
  call; a panic ends the run.
\<close>

fun run :: "(env \<times> Msg) list \<Rightarrow> model \<Rightarrow> panic + model" where
  "run [] m = Inr m"
| "run (ev # evs) m =
     (case Update (fst ev) (snd ev) m of
        Inl p \<Rightarrow> Inl p
      | Inr r \<Rightarrow> run evs (fst r))"

definition ticks :: "env list \<Rightarrow> model \<Rightarrow> panic + model" where
  "ticks es m = run (map (\<lambda>e. (e, tickMsg)) es) m"

section \<open>Notions the properties are stated with\<close>

text \<open>
  The tick that completes a session: the branch of \<^verbatim>\<open>Update\<close> at line 209 is taken, that
  is, a session is running, its pre-roll is over and the remaining time, one second
  less, is at most \<open>-4\<close> seconds. \<open>completed\<close> is the record lines 215 and 216 build.
\<close>

definition completingTick :: "model \<Rightarrow> bool" where
  "completingTick m =
     (inSession m \<and> \<not> opening' m \<and> Seconds (remainingTime m - 1 * Second) \<le> - 4)"

definition completed :: "env \<Rightarrow> model \<Rightarrow> session" where
  "completed e m = \<lparr>StartTime = startTime m, EndTime = now e, Duration = timerDuration m\<rparr>"

text \<open>
  The timetable of a session of \<open>n\<close> minutes, by the number \<open>k\<close> of ticks since its
  start, and the model's progress value after \<open>k\<close> ticks (the exact quotient, which the
  code rounds): \<^verbatim>\<open>Update\<close> computes \<open>percent\<close> on the ticks \<open>4\<close> to \<open>60 * n + 2\<close> only,
  from the \<open>60 * n + 3 - k\<close> seconds that remain.
\<close>

definition timetable :: "nat \<Rightarrow> nat \<Rightarrow> Phase" where
  "timetable n k =
     (if k < 3 then Opening
      else if k < 60 * n + 3 then Active
      else if k < 60 * n + 7 then Closing
      else Idle)"

definition progressAt :: "nat \<Rightarrow> nat \<Rightarrow> real" where
  "progressAt n k =
     (if k \<le> 3 then 0
      else 1 - real_of_int (max (60 * int n + 3 - int k) 1) / real_of_int (60 * int n))"

text \<open>
  \<open>reached n m0 es m\<close>: what the ticks \<open>es\<close> make of a session of \<open>n\<close> minutes that
  started in the state \<open>m0\<close>. It is the invariant of the run of ticks.
\<close>

definition reached :: "nat \<Rightarrow> model \<Rightarrow> env list \<Rightarrow> model \<Rightarrow> bool" where
  "reached n m0 es m =
     (inSession m = (length es < 60 * n + 7) \<and>
      opening' m = (length es < 3) \<and>
      closing m = (60 * n + 3 \<le> length es \<and> length es < 60 * n + 7) \<and>
      sint (remainingTime m) = (60 * int n + 3 - int (min (length es) (60 * n + 7))) * 1000000000 \<and>
      percent m = progressAt n (length es) \<and>
      timerDuration m = timerDuration m0 \<and>
      sessionType m = sessionType m0 \<and>
      startTime m = startTime m0 \<and>
      sessions m =
        (if length es < 60 * n + 7 \<or> sessionType m0 \<noteq> workSession then sessions m0
         else sessions m0 @
           [\<lparr>StartTime = startTime m0, EndTime = now (es ! (60 * n + 6)),
             Duration = timerDuration m0\<rparr>]))"

text \<open>
  An outside to run the program in: a text widget that appends the runes of a key press
  to its value (up to the limit of 20 characters that \<^verbatim>\<open>initialModel\<close> sets) and ignores
  every other message, a clock that reads \<open>t\<close>, and a store whose save succeeds
  (\<open>outside\<close>) or fails (\<open>brokenDisk\<close>).
\<close>

definition typing :: "Msg \<Rightarrow> string \<Rightarrow> string" where
  "typing msg v =
     (case msg of
        KeyMsg k \<Rightarrow>
          if Type k = KeyRunes \<and> \<not> Alt k \<and> length v + length (Runes k) \<le> 20
          then v @ Runes k else v
      | _ \<Rightarrow> v)"

definition saveOk :: "session list \<Rightarrow> string option" where
  "saveOk ss = None"

definition saveFails :: "session list \<Rightarrow> string option" where
  "saveFails ss = Some ''permission denied''"

definition outside :: "Time \<Rightarrow> env" where
  "outside t = \<lparr>now = t, saveSessions = saveOk, textarea_Update = typing\<rparr>"

definition brokenDisk :: "Time \<Rightarrow> env" where
  "brokenDisk t = \<lparr>now = t, saveSessions = saveFails, textarea_Update = typing\<rparr>"

definition runeKey :: "string \<Rightarrow> Key" where
  "runeKey s = \<lparr>Type = KeyRunes, Runes = s, Alt = False\<rparr>"

definition enterKey :: Key where
  "enterKey = \<lparr>Type = KeyEnter, Runes = [], Alt = False\<rparr>"

text \<open>
  \<^verbatim>\<open>View\<close> (lines 240 to 277), where the claims need it: the list view, which prints
  \<^verbatim>\<open>m.sessions\<close>, and the prompt of the Idle phase, which prints \<^verbatim>\<open>m.err\<close>. What the
  other packages render is a parameter: \<^verbatim>\<open>showHelper()\<close>, the text widget's view,
  \<^verbatim>\<open>printSessions\<close>, the styled help line of the list view, and the three status lines
  of a running session (lines 255 to 276), which read the timer's fields only.
\<close>

record screen =
  showHelper :: string
  textarea_View :: "string \<Rightarrow> string"
  printSessions :: "session list \<Rightarrow> bool \<Rightarrow> date \<Rightarrow> string"
  stopHelp :: string
  running :: "model \<Rightarrow> string"

definition View :: "screen \<Rightarrow> model \<Rightarrow> string" where
  "View ui m =
     (if showSession m
      then [CHR 0x0A] @ printSessions ui (sessions m) (printDifferentDate m) (datePrint m) @
           [CHR 0x0A] @ stopHelp ui
      else if \<not> inSession m
      then [CHR 0x0A] @ showHelper ui @ [CHR 0x0A] @ textarea_View ui (textarea m) @
           [CHR 0x0A, CHR 0x0A] @ err m @ [CHR 0x0A, CHR 0x0A]
      else running ui m)"

text \<open>A screen to evaluate \<open>View\<close> on, and a work session one tick before it completes.\<close>

definition plainScreen :: screen where
  "plainScreen =
     \<lparr>showHelper = ''help'', textarea_View = (\<lambda>v. v),
      printSessions = (\<lambda>ss other d. replicate (length ss) CHR ''*''),
      stopHelp = ''stop'', running = (\<lambda>m. sessionType m)\<rparr>"

definition closingWork :: model where
  "closingWork =
     (startSession 0 workSession 25 (initialModel []))
       \<lparr>opening' := False, closing := True, remainingTime := - (3 * Second)\<rparr>"

text \<open>
  Two runs from the initial model. In \<open>listWhileActive\<close> the user starts a work session
  with \<^verbatim>\<open>s\<close>, lets the pre-roll pass and submits \<^verbatim>\<open>l\<close>. In \<open>hiddenFailure\<close> the session
  then runs to its end, and the save of the completing tick fails.
\<close>

definition listWhileActive :: "(env \<times> Msg) list" where
  "listWhileActive =
     [(outside 0, KeyMsg (runeKey ''s'')), (outside 0, KeyMsg enterKey),
      (outside 1, tickMsg), (outside 2, tickMsg), (outside 3, tickMsg),
      (outside 4, KeyMsg (runeKey ''l'')), (outside 4, KeyMsg enterKey)]"

definition hiddenFailure :: "(env \<times> Msg) list" where
  "hiddenFailure =
     listWhileActive @ map (\<lambda>e. (e, tickMsg)) (replicate 1503 (outside 5)) @
     [(brokenDisk 9, tickMsg)]"

text \<open>
  The calendar in the spec's words: a valid ISO date is ten characters \<^verbatim>\<open>YYYY-MM-DD\<close>, all
  digits but the two hyphens, with a month from 1 to 12 and a day from 1 to the length of
  that month in that year. It is stated apart from the parser above and compared with it
  below (\<open>Parse_DateOnly_isoDate\<close>).
\<close>

definition leapYear :: "nat \<Rightarrow> bool" where
  "leapYear y = (4 dvd y \<and> (\<not> 100 dvd y \<or> 400 dvd y))"

definition monthLength :: "nat \<Rightarrow> nat \<Rightarrow> nat" where
  "monthLength y mo =
     (if mo = 2 then (if leapYear y then 29 else 28)
      else if mo = 4 \<or> mo = 6 \<or> mo = 9 \<or> mo = 11 then 30
      else 31)"

definition isoDate :: "string \<Rightarrow> bool" where
  "isoDate s =
     (case s of
        [y1, y2, y3, y4, h1, m1, m2, h2, d1, d2] \<Rightarrow>
          list_all isDigit [y1, y2, y3, y4, m1, m2, d1, d2] \<and>
          h1 = CHR ''-'' \<and> h2 = CHR ''-'' \<and>
          1 \<le> digit m1 * 10 + digit m2 \<and> digit m1 * 10 + digit m2 \<le> 12 \<and>
          1 \<le> digit d1 * 10 + digit d2 \<and>
          digit d1 * 10 + digit d2 \<le>
            monthLength (digit y1 * 1000 + digit y2 * 100 + digit y3 * 10 + digit y4)
              (digit m1 * 10 + digit m2)
      | _ \<Rightarrow> False)"

text \<open>The decimal numeral of \<open>n\<close>, as a user types it: no sign, no leading zero.\<close>

definition digitChar :: "nat \<Rightarrow> char" where
  "digitChar d = ''0123456789'' ! d"

fun decimal :: "nat \<Rightarrow> string" where
  "decimal n =
     (if n < 10 then [digitChar n]
      else decimal (n div 10) @ [digitChar (n mod 10)])"

declare decimal.simps [simp del]

section \<open>Auxiliary facts\<close>

subsection \<open>Durations\<close>

lemma sint_of_int_64:
  "- 9223372036854775808 \<le> x \<Longrightarrow> x < 9223372036854775808 \<Longrightarrow> sint (word_of_int x :: 64 word) = x"
  by (simp add: sint_sbintrunc' signed_take_bit_int_eq_self)

lemma sint_sub_Second:
  assumes "- 9223372035854775808 \<le> sint (d :: 64 word)"
  shows "sint (d - 1 * Second) = sint d - 1000000000"
proof -
  have "d - 1 * Second = word_of_int (sint d - 1000000000)"
    by (simp add: Second_def)
  moreover have "sint d < 9223372036854775808"
    using sint_lt [of d] by simp
  ultimately show ?thesis
    using assms by (simp only: sint_of_int_64)
qed

lemma Seconds_le_m4: "Seconds d \<le> - 4 \<longleftrightarrow> sint d \<le> - 4000000000"
proof -
  have "Seconds d \<le> - 4 \<longleftrightarrow> real_of_int (sint d) \<le> real_of_int (- 4000000000)"
    unfolding Seconds_def by (simp add: field_simps)
  then show ?thesis
    by (simp only: of_int_le_iff)
qed

lemma Seconds_le_0: "Seconds d \<le> 0 \<longleftrightarrow> sint d \<le> 0"
proof -
  have "Seconds d \<le> 0 \<longleftrightarrow> real_of_int (sint d) \<le> real_of_int 0"
    unfolding Seconds_def by (simp add: field_simps)
  then show ?thesis
    by (simp only: of_int_le_iff)
qed

lemma sint_minutes:
  assumes "n \<le> 153722867"
  shows "sint (of_nat n * Minute) = int n * 60000000000"
    and "sint (of_nat n * Minute + 3 * Second) = int n * 60000000000 + 3000000000"
proof -
  have a: "(of_nat n * Minute :: 64 word) = word_of_int (int n * 60000000000)"
    by (simp add: Minute_def)
  have b: "(of_nat n * Minute + 3 * Second :: 64 word) = word_of_int (int n * 60000000000 + 3000000000)"
    by (simp add: Minute_def Second_def)
  from assms show "sint (of_nat n * Minute) = int n * 60000000000"
    unfolding a by (intro sint_of_int_64) simp_all
  from assms show "sint (of_nat n * Minute + 3 * Second) = int n * 60000000000 + 3000000000"
    unfolding b by (intro sint_of_int_64) simp_all
qed

lemma Milliseconds_whole:
  assumes "sint d = a * 1000000000" and "0 \<le> a"
  shows "Milliseconds d = a * 1000"
proof -
  have "a * 1000000000 = (a * 1000) * 1000000"
    by simp
  then have "(a * 1000000000) div 1000000 = a * 1000"
    by simp
  moreover have "(a * 1000000000) sdiv 1000000 = (a * 1000000000) div 1000000"
    using assms(2) by (simp add: signed_divide_int_def sgn_if)
  ultimately show ?thesis
    using assms(1) by (simp add: Milliseconds_def)
qed

subsection \<open>Runs\<close>

lemma Update_tick: "Update e tickMsg m = Inr (onTick e (m\<lparr>textarea := textarea_Update e tickMsg (textarea m)\<rparr>))"
  by (simp add: Update_def)

lemma run_append: "run (xs @ ys) m = (case run xs m of Inl p \<Rightarrow> Inl p | Inr m' \<Rightarrow> run ys m')"
  by (induction xs arbitrary: m) (auto split: sum.splits)

lemma ticks_Nil: "ticks [] m = Inr m"
  by (simp add: ticks_def)

lemma ticks_snoc:
  "ticks (es @ [e]) m = (case ticks es m of Inl p \<Rightarrow> Inl p | Inr m' \<Rightarrow>
      (case Update e tickMsg m' of Inl p \<Rightarrow> Inl p | Inr r \<Rightarrow> Inr (fst r)))"
  by (simp add: ticks_def run_append split: sum.splits)

lemma ticks_append:
  "ticks (es @ fs) m = (case ticks es m of Inl p \<Rightarrow> Inl p | Inr m' \<Rightarrow> ticks fs m')"
  by (simp add: ticks_def run_append split: sum.splits)

subsection \<open>Keys and the command line\<close>

lemma Enter_no_binding:
  "Type k = KeyEnter \<Longrightarrow> \<not> Matches k (Stop keys) \<and> \<not> Matches k (Quit keys)"
  by (auto simp: Matches_def keyString_def keys_def)

lemma checkValidMinute_frame:
  "checkValidMinute m command = (m1, n, ok) \<Longrightarrow> \<exists>msg. m1 = m\<lparr>err := msg\<rparr>"
  by (auto simp: checkValidMinute_def split: if_splits option.splits intro: exI [of _ "err m"])

lemma handleCommand_running:
  assumes "inSession m" and "prefix ''s'' command \<or> prefix ''b'' command"
  shows "\<exists>msg. handleCommand e command m = Inr (m\<lparr>err := msg\<rparr>, nilCmd)"
proof -
  obtain m1 n ok where c: "checkValidMinute m command = (m1, n, ok)"
    by (cases "checkValidMinute m command") auto
  then obtain msg where m1: "m1 = m\<lparr>err := msg\<rparr>"
    using checkValidMinute_frame by blast
  with assms(1) have ins: "inSession m1"
    by simp
  have nq: "command \<noteq> ''q''"
    using assms(2) by auto
  have "handleCommand e command m = Inr (m1, nilCmd)"
  proof (cases "prefix ''s'' command")
    case True
    with nq c ins show ?thesis
      unfolding handleCommand_def by simp
  next
    case False
    with assms(2) have "prefix ''b'' command"
      by simp
    with False nq c ins show ?thesis
      unfolding handleCommand_def by simp
  qed
  with m1 show ?thesis
    by blast
qed

subsection \<open>The session list\<close>

lemma onTick_sessions:
  "sessions (fst (onTick e m)) =
     (if completingTick m \<and> sessionType m = workSession then sessions m @ [completed e m]
      else sessions m)"
  by (auto simp: onTick_def Let_def completingTick_def completed_def split: option.splits)

lemma handleCommand_sessions:
  "handleCommand e command m = Inr (m', c) \<Longrightarrow> sessions m' = sessions m"
  by (auto simp: handleCommand_def startSession_def sliceFrom_def
      split: if_splits prod.splits option.splits sum.splits dest!: checkValidMinute_frame)

lemma onKey_sessions: "onKey e k m = Inr (m', c) \<Longrightarrow> sessions m' = sessions m"
  by (auto simp: onKey_def split: if_splits KeyType.splits dest!: handleCommand_sessions)

lemma Update_sessions:
  assumes "Update e msg m = Inr (m', c)"
  shows "sessions m' =
     (if msg = tickMsg \<and> completingTick m \<and> sessionType m = workSession
      then sessions m @ [completed e m] else sessions m)"
proof (cases msg)
  case (KeyMsg k)
  with assms show ?thesis
    by (auto simp: Update_def dest!: onKey_sessions)
next
  case (WindowSizeMsg w h)
  with assms show ?thesis
    by (auto simp: Update_def)
next
  case tickMsg
  with assms onTick_sessions [of e "m\<lparr>textarea := textarea_Update e tickMsg (textarea m)\<rparr>"]
  show ?thesis
    by (auto simp: Update_tick completingTick_def completed_def)
next
  case OtherMsg
  with assms show ?thesis
    by (auto simp: Update_def)
qed

subsection \<open>A run of ticks\<close>

lemma reached_start:
  assumes "1 \<le> n" and "n \<le> 153722867"
  shows "reached n (startSession t ty (of_nat n) m) [] (startSession t ty (of_nat n) m)"
  using assms sint_minutes(2) [of n]
  by (simp add: reached_def startSession_def progressAt_def)

lemma reached_step:
  assumes n: "1 \<le> n" "n \<le> 153722867"
    and td: "sint (timerDuration m0) = int n * 60000000000"
    and r: "reached n m0 es m"
  shows "\<exists>m' c. Update e tickMsg m = Inr (m', c) \<and> reached n m0 (es @ [e]) m'"
proof -
  let ?k = "length es"
  let ?S = "60 * n + 3"
  let ?m = "m\<lparr>textarea := textarea_Update e tickMsg (textarea m)\<rparr>"
  have U: "Update e tickMsg m = Inr (onTick e ?m)"
    by (rule Update_tick)
  show ?thesis
  proof (cases "?k < 60 * n + 7")
    case False
    with r have "\<not> inSession m"
      by (simp add: reached_def)
    then have "onTick e ?m = (?m, nilCmd)"
      by (simp add: onTick_def)
    moreover from r False have "reached n m0 (es @ [e]) ?m"
      by (auto simp: reached_def progressAt_def nth_append min_def)
    ultimately show ?thesis
      using U by simp
  next
    case True
    with r have ins: "inSession m" and rem: "sint (remainingTime m) = (60 * int n + 3 - int ?k) * 1000000000"
      by (simp_all add: reached_def min_def)
    from r have op: "opening' m = (?k < 3)" and cl: "closing m = (60 * n + 3 \<le> ?k)"
      and pc: "percent m = progressAt n ?k" and tdeq: "timerDuration m = timerDuration m0"
      and ty: "sessionType m = sessionType m0" and st: "startTime m = startTime m0"
      and ss: "sessions m = sessions m0"
      using True by (simp_all add: reached_def)
    from rem True have "- 9223372035854775808 \<le> sint (remainingTime m)"
      by simp
    then have "sint (remainingTime m - 1 * Second) = sint (remainingTime m) - 1000000000"
      by (rule sint_sub_Second)
    with rem have rem': "sint (remainingTime m - 1 * Second) = (60 * int n + 2 - int ?k) * 1000000000"
      by (simp add: algebra_simps)
    have tdm: "Milliseconds (timerDuration m) = int n * 60 * 1000"
      using td tdeq by (intro Milliseconds_whole) simp_all
    have s4: "Seconds (remainingTime m - 1 * Second) \<le> - 4 \<longleftrightarrow> 60 * n + 6 \<le> ?k"
      unfolding Seconds_le_m4 rem' by auto
    have s0: "Seconds (remainingTime m - 1 * Second) \<le> 0 \<longleftrightarrow> 60 * n + 2 \<le> ?k"
      unfolding Seconds_le_0 rem' by auto
    have ms: "?k \<le> 60 * n + 2 \<Longrightarrow>
        Milliseconds (remainingTime m - 1 * Second) = (60 * int n + 2 - int ?k) * 1000"
      using rem' by (intro Milliseconds_whole) simp_all
    consider (a) "?k < 2" | (b) "?k = 2" | (c) "3 \<le> ?k" "?k < 60 * n + 2"
      | (d) "60 * n + 2 \<le> ?k" "?k < 60 * n + 6" | (f) "?k = 60 * n + 6"
      using True by linarith
    then show ?thesis
    proof cases
      case a
      then have "onTick e ?m = (?m\<lparr>remainingTime := remainingTime m - 1 * Second\<rparr>, tickCmd)"
        using ins op ms tdm by (simp add: onTick_def Let_def)
      moreover have "reached n m0 (es @ [e]) (?m\<lparr>remainingTime := remainingTime m - 1 * Second\<rparr>)"
        using a r rem' n by (simp add: reached_def progressAt_def min_def algebra_simps)
      ultimately show ?thesis
        using U by simp
    next
      case b
      then have "onTick e ?m =
          (?m\<lparr>remainingTime := remainingTime m - 1 * Second, opening' := False\<rparr>, tickCmd)"
        using ins op ms tdm by (simp add: onTick_def Let_def)
      moreover have "reached n m0 (es @ [e])
          (?m\<lparr>remainingTime := remainingTime m - 1 * Second, opening' := False\<rparr>)"
        using b r rem' n by (simp add: reached_def progressAt_def min_def algebra_simps)
      ultimately show ?thesis
        using U by simp
    next
      case c
      let ?p = "1 - real_of_int ((60 * int n + 2 - int ?k) * 1000) / real_of_int (int n * 60 * 1000)"
      from c have o: "onTick e ?m =
          (?m\<lparr>remainingTime := remainingTime m - 1 * Second, percent := ?p\<rparr>, tickCmd)"
        using ins op ms tdm s4 s0 by (simp add: onTick_def Let_def)
      have mx: "max (60 * int n + 3 - int (Suc ?k)) 1 = 60 * int n + 2 - int ?k"
        using c by simp
      have "?p = 1 - real_of_int (60 * int n + 2 - int ?k) / real_of_int (60 * int n)"
        using n by (simp add: field_simps)
      also have "\<dots> = progressAt n (Suc ?k)"
        using c unfolding progressAt_def mx by simp
      finally have "?p = progressAt n (Suc ?k)" .
      then have "reached n m0 (es @ [e])
          (?m\<lparr>remainingTime := remainingTime m - 1 * Second, percent := ?p\<rparr>)"
        using c r rem' n by (simp add: reached_def min_def algebra_simps)
      with o show ?thesis
        using U by simp
    next
      case d
      then have "onTick e ?m =
          (?m\<lparr>remainingTime := remainingTime m - 1 * Second, closing := True\<rparr>, tickCmd)"
        using ins op s4 s0 n by (simp add: onTick_def Let_def)
      moreover have "progressAt n (Suc ?k) = progressAt n ?k"
        using d n by (simp add: progressAt_def max_def)
      then have "reached n m0 (es @ [e])
          (?m\<lparr>remainingTime := remainingTime m - 1 * Second, closing := True\<rparr>)"
        using d r rem' n by (simp add: reached_def min_def algebra_simps)
      ultimately show ?thesis
        using U by simp
    next
      case f
      let ?m1 = "?m\<lparr>remainingTime := remainingTime m - 1 * Second, closing := False,
                      inSession := False\<rparr>"
      have pe: "progressAt n (Suc ?k) = progressAt n ?k"
        using f n by (simp add: progressAt_def max_def)
      show ?thesis
      proof (cases "sessionType m0 = workSession")
        case False
        then have "onTick e ?m = (?m1, nilCmd)"
          using f ins op s4 ty n by (simp add: onTick_def Let_def)
        moreover have "reached n m0 (es @ [e]) ?m1"
          using False f r rem' n pe by (simp add: reached_def min_def algebra_simps)
        ultimately show ?thesis
          using U by simp
      next
        case True
        let ?m2 = "?m1\<lparr>sessions := sessions m @ [\<lparr>StartTime = startTime m, EndTime = now e,
                      Duration = timerDuration m\<rparr>]\<rparr>"
        from True have "\<exists>m'. onTick e ?m = (m', nilCmd) \<and> (\<exists>x. m' = ?m2\<lparr>err := x\<rparr>)"
          using f ins op s4 ty n
          by (auto simp: onTick_def Let_def split: option.splits intro: exI [of _ "err m"])
        then obtain m' x where o: "onTick e ?m = (m', nilCmd)" and m': "m' = ?m2\<lparr>err := x\<rparr>"
          by blast
        have "reached n m0 (es @ [e]) m'"
          unfolding m' using True f r rem' n pe
          by (simp add: reached_def min_def nth_append algebra_simps)
        with o show ?thesis
          using U by simp
      qed
    qed
  qed
qed

lemma ticks_reached:
  assumes "1 \<le> n" and "n \<le> 153722867" and "m0 = startSession t ty (of_nat n) m"
  shows "\<exists>m'. ticks es m0 = Inr m' \<and> reached n m0 es m'"
proof (induction es rule: rev_induct)
  case Nil
  from assms show ?case
    by (simp add: ticks_Nil reached_start)
next
  case (snoc e es)
  then obtain m1 where t: "ticks es m0 = Inr m1" and r: "reached n m0 es m1"
    by blast
  have "sint (timerDuration m0) = int n * 60000000000"
    using assms sint_minutes(1) [of n] by (simp add: startSession_def)
  from reached_step [OF assms(1,2) this r, of e]
  obtain m' c where "Update e tickMsg m1 = Inr (m', c)" and "reached n m0 (es @ [e]) m'"
    by blast
  with t show ?case
    by (simp add: ticks_snoc)
qed

lemma reached_phase: "1 \<le> n \<Longrightarrow> reached n m0 es m \<Longrightarrow> phase m = timetable n (length es)"
  by (auto simp: reached_def phase_def timetable_def)

lemma progressAt_mono: "1 \<le> n \<Longrightarrow> progressAt n k \<le> progressAt n (Suc k)"
  by (auto simp: progressAt_def max_def field_simps)

lemma progressAt_less_1: "1 \<le> n \<Longrightarrow> progressAt n k < 1"
  by (auto simp: progressAt_def max_def field_simps)

subsection \<open>The session type and the session list over a run\<close>

lemma work_neq_break: "breakSession \<noteq> workSession"
  by (simp add: breakSession_def workSession_def)

lemma handleCommand_inSession:
  "handleCommand e command m = Inr (m', c) \<Longrightarrow> inSession m \<Longrightarrow> sessionType m' = sessionType m"
  by (auto simp: handleCommand_def startSession_def sliceFrom_def
      split: if_splits prod.splits option.splits sum.splits dest!: checkValidMinute_frame)

lemma onKey_sessionType:
  "onKey e k m = Inr (m', c) \<Longrightarrow> inSession m \<Longrightarrow> sessionType m' = sessionType m"
  by (auto simp: onKey_def split: if_splits KeyType.splits dest!: handleCommand_inSession)

lemma onTick_sessionType: "sessionType (fst (onTick e m)) = sessionType m"
  by (auto simp: onTick_def Let_def split: option.splits)

lemma Update_sessionType:
  assumes "Update e msg m = Inr (m', c)" and "inSession m"
  shows "sessionType m' = sessionType m"
proof (cases msg)
  case (KeyMsg k)
  with assms show ?thesis
    by (auto simp: Update_def dest!: onKey_sessionType)
next
  case (WindowSizeMsg w h)
  with assms show ?thesis
    by (auto simp: Update_def)
next
  case tickMsg
  with assms onTick_sessionType [of e "m\<lparr>textarea := textarea_Update e tickMsg (textarea m)\<rparr>"]
  show ?thesis
    by (auto simp: Update_tick)
next
  case OtherMsg
  with assms show ?thesis
    by (auto simp: Update_def)
qed

lemma run_snoc_Inr:
  assumes "run (evs @ [ev]) m = Inr m'"
  obtains mk c where "run evs m = Inr mk" and "Update (fst ev) (snd ev) mk = Inr (m', c)"
  using assms by (auto simp: run_append split: sum.splits)

lemma break_run:
  assumes "inSession m" and "sessionType m = breakSession"
  shows "run evs m = Inr m' \<Longrightarrow>
         (\<forall>i < length evs. \<forall>mi. run (take i evs) m = Inr mi \<longrightarrow> inSession mi) \<Longrightarrow>
         sessions m' = sessions m \<and> sessionType m' = breakSession"
proof (induction evs arbitrary: m' rule: rev_induct)
  case Nil
  with assms show ?case
    by simp
next
  case (snoc ev evs)
  from snoc.prems(1) obtain mk c where k: "run evs m = Inr mk"
    and u: "Update (fst ev) (snd ev) mk = Inr (m', c)"
    by (rule run_snoc_Inr)
  have "\<forall>i < length evs. \<forall>mi. run (take i evs) m = Inr mi \<longrightarrow> inSession mi"
  proof (intro allI impI)
    fix i mi
    assume "i < length evs" and "run (take i evs) m = Inr mi"
    with snoc.prems(2) [rule_format, of i mi] show "inSession mi"
      by simp
  qed
  with snoc.IH [OF k] have ih: "sessions mk = sessions m" "sessionType mk = breakSession"
    by simp_all
  from snoc.prems(2) [rule_format, of "length evs" mk] k have ins: "inSession mk"
    by simp
  from Update_sessions [OF u] ih work_neq_break have "sessions m' = sessions m"
    by simp
  moreover from Update_sessionType [OF u ins] ih have "sessionType m' = breakSession"
    by simp
  ultimately show ?case
    by simp
qed

lemma run_sessions_prefix: "run evs m = Inr m' \<Longrightarrow> prefix (sessions m) (sessions m')"
proof (induction evs arbitrary: m)
  case Nil
  then show ?case
    by simp
next
  case (Cons ev evs)
  then obtain m1 c where u: "Update (fst ev) (snd ev) m = Inr (m1, c)" and r: "run evs m1 = Inr m'"
    by (auto split: sum.splits)
  from Update_sessions [OF u] have "prefix (sessions m) (sessions m1)"
    by (simp split: if_splits)
  with Cons.IH [OF r] show ?case
    by (rule prefix_order.trans [rotated])
qed

subsection \<open>The completing tick\<close>

lemma onTick_completing:
  assumes "completingTick m" and "sessionType m = workSession"
  shows "onTick e m =
     (m\<lparr>remainingTime := remainingTime m - 1 * Second, closing := False, inSession := False,
        sessions := sessions m @ [completed e m],
        err := (case saveSessions e (sessions m @ [completed e m]) of
                  None \<Rightarrow> err m | Some s \<Rightarrow> s)\<rparr>, nilCmd)"
  using assms
  by (simp add: onTick_def Let_def completingTick_def completed_def split: option.splits)

lemma completingTick_textarea: "completingTick (m\<lparr>textarea := v\<rparr>) = completingTick m"
  by (simp add: completingTick_def)

lemma completed_textarea: "completed e (m\<lparr>textarea := v\<rparr>) = completed e m"
  by (simp add: completed_def)

lemma Update_completing:
  assumes "completingTick m" and "sessionType m = workSession"
  shows "Update e tickMsg m =
     Inr (m\<lparr>textarea := textarea_Update e tickMsg (textarea m),
            remainingTime := remainingTime m - 1 * Second, closing := False, inSession := False,
            sessions := sessions m @ [completed e m],
            err := (case saveSessions e (sessions m @ [completed e m]) of
                      None \<Rightarrow> err m | Some s \<Rightarrow> s)\<rparr>, nilCmd)"
proof -
  let ?m = "m\<lparr>textarea := textarea_Update e tickMsg (textarea m)\<rparr>"
  have "completingTick ?m" "sessionType ?m = workSession"
    using assms by (simp_all add: completingTick_textarea)
  from onTick_completing [OF this, of e] show ?thesis
    by (simp add: Update_tick completed_textarea split: option.splits)
qed

lemma reached_completing:
  assumes "reached n m0 es m" and "length es = 60 * n + 6"
  shows "completingTick m"
proof -
  from assms have f: "inSession m" "\<not> opening' m" "sint (remainingTime m) = - 3000000000"
    by (simp_all add: reached_def)
  from f(3) have "sint (remainingTime m - 1 * Second) = - 4000000000"
    using sint_sub_Second [of "remainingTime m"] by simp
  with f(1,2) show ?thesis
    by (simp add: completingTick_def Seconds_le_m4)
qed

lemma other_key_clears_err:
  assumes "\<not> inSession m" and "\<not> Matches k (Stop keys)" and "Type k \<noteq> KeyEnter"
    and "Update e (KeyMsg k) m = Inr (m2, c)"
  shows "err m2 = []"
  using assms by (cases "Type k") (auto simp: Update_def onKey_def Let_def)

subsection \<open>Ticks while the list view is open\<close>

lemma onTick_showSession: "showSession (fst (onTick e m)) = showSession m"
  by (auto simp: onTick_def Let_def split: option.splits)

lemma ticks_showSession: "ticks es m = Inr m' \<Longrightarrow> showSession m' = showSession m"
proof (induction es arbitrary: m' rule: rev_induct)
  case Nil
  then show ?case
    by (simp add: ticks_Nil)
next
  case (snoc e es)
  from snoc.prems obtain m1 where t: "ticks es m = Inr m1"
    and u: "m' = fst (onTick e (m1\<lparr>textarea := textarea_Update e tickMsg (textarea m1)\<rparr>))"
    by (auto simp: ticks_snoc Update_tick split: sum.splits)
  from snoc.IH [OF t] u show ?case
    by (simp add: onTick_showSession)
qed

lemma ticks_reached_from:
  assumes "1 \<le> n" and "n \<le> 153722867"
    and "sint (timerDuration m0) = int n * 60000000000"
    and "reached n m0 es0 m"
  shows "\<exists>m'. ticks es m = Inr m' \<and> reached n m0 (es0 @ es) m'"
proof (induction es rule: rev_induct)
  case Nil
  from assms(4) show ?case
    by (simp add: ticks_Nil)
next
  case (snoc e es)
  then obtain m1 where t: "ticks es m = Inr m1" and r: "reached n m0 (es0 @ es) m1"
    by blast
  from reached_step [OF assms(1,2,3) r, of e]
  obtain m' c where "Update e tickMsg m1 = Inr (m', c)" and "reached n m0 ((es0 @ es) @ [e]) m'"
    by blast
  with t show ?case
    by (simp add: ticks_snoc)
qed

lemma run_listWhileActive:
  "run listWhileActive (initialModel []) =
     Inr ((startSession 0 workSession 25 (initialModel []))
            \<lparr>remainingTime := 25 * Minute, opening' := False, showSession := True\<rparr>)"
  by (simp add: listWhileActive_def Update_def onKey_def onTick_def handleCommand_def
      checkValidMinute_def startSession_def initialModel_def outside_def typing_def
      runeKey_def enterKey_def Matches_def keyString_def keys_def Let_def Milliseconds_def
      Seconds_le_m4 Seconds_le_0 Second_def Minute_def signed_divide_int_def)

lemma run_hiddenFailure:
  "\<exists>m1. run hiddenFailure (initialModel []) = Inr m1 \<and> \<not> inSession m1 \<and> showSession m1 \<and>
     err m1 = ''permission denied'' \<and> length (sessions m1) = 1"
proof -
  let ?m0 = "startSession 0 workSession 25 (initialModel [])"
  let ?mL = "?m0\<lparr>remainingTime := 25 * Minute, opening' := False, showSession := True\<rparr>"
  have n: "(1::nat) \<le> 25" "(25::nat) \<le> 153722867"
    by simp_all
  have td: "sint (timerDuration ?m0) = int 25 * 60000000000"
    by (simp add: startSession_def Minute_def)
  have r0: "reached 25 ?m0 (replicate 3 (outside 0)) ?mL"
    by (simp add: reached_def startSession_def progressAt_def Minute_def)
  from ticks_reached_from [OF n td r0, of "replicate 1503 (outside 5)"]
  obtain mC where t: "ticks (replicate 1503 (outside 5)) ?mL = Inr mC"
    and r: "reached 25 ?m0 (replicate 3 (outside 0) @ replicate 1503 (outside 5)) mC"
    by blast
  have c: "completingTick mC"
    using r by (rule reached_completing) simp
  have ty: "sessionType mC = workSession" and ss: "sessions mC = []"
    using r by (simp_all add: reached_def startSession_def initialModel_def)
  have sh: "showSession mC"
    using ticks_showSession [OF t] by simp
  let ?m1 = "mC\<lparr>textarea := textarea_Update (brokenDisk 9) tickMsg (textarea mC),
            remainingTime := remainingTime mC - 1 * Second, closing := False, inSession := False,
            sessions := sessions mC @ [completed (brokenDisk 9) mC],
            err := ''permission denied''\<rparr>"
  have u: "Update (brokenDisk 9) tickMsg mC = Inr (?m1, nilCmd)"
    using Update_completing [OF c ty, of "brokenDisk 9"]
    by (simp add: brokenDisk_def saveFails_def)
  have "run hiddenFailure (initialModel []) = Inr ?m1"
    unfolding hiddenFailure_def run_append run_listWhileActive
    using t u by (simp add: ticks_def)
  then show ?thesis
    using sh ss by (intro exI [of _ ?m1]) simp
qed

subsection \<open>Submitted command lines\<close>

lemma handleCommand_list:
  assumes "prefix ''l'' command"
  shows "handleCommand e command m =
     Inr (if command = ''l'' then m\<lparr>printDifferentDate := False, showSession := True\<rparr>
          else if \<not> prefix '' '' (drop 1 command) then m\<lparr>err := ''Invalid command''\<rparr>
          else (case Parse_DateOnly (TrimSpace (drop 2 command)) of
                  None \<Rightarrow> m\<lparr>err := ''Invalid date format''\<rparr>
                | Some d \<Rightarrow> m\<lparr>printDifferentDate := True, datePrint := d, showSession := True\<rparr>),
          nilCmd)"
proof -
  from assms obtain sfx where c: "command = CHR ''l'' # sfx"
    by (auto simp: prefix_def)
  show ?thesis
  proof (cases sfx)
    case Nil
    with c show ?thesis
      by (simp add: handleCommand_def)
  next
    case (Cons a rest)
    with c show ?thesis
      by (simp add: handleCommand_def sliceFrom_def split: option.splits)
  qed
qed

lemma Enter_handleCommand:
  assumes "Type k = KeyEnter" and "\<not> (inSession m \<and> (opening' m \<or> closing m))"
  shows "Update e (KeyMsg k) m =
     handleCommand e (textarea_Update e (KeyMsg k) (textarea m)) (m\<lparr>err := [], textarea := []\<rparr>)"
proof -
  have nb: "\<not> Matches k (Stop keys)" "\<not> Matches k (Quit keys)"
    using Enter_no_binding [OF assms(1)] by simp_all
  with assms show ?thesis
    by (cases "inSession m") (simp_all add: Update_def onKey_def Let_def)
qed


subsection \<open>Dates\<close>

lemma TrimSpace_space: "TrimSpace (CHR '' '' # rest) = TrimSpace rest"
proof -
  have "stripRune spaceRunes (CHR '' '' # rest) = Some rest"
    by (simp add: stripRune_def spaceRunes_def)
  then have "trimLeftRunes spaceRunes (CHR '' '' # rest) = trimLeftRunes spaceRunes rest"
    by (subst trimLeftRunes.simps) simp
  then show ?thesis
    by (simp add: TrimSpace_def)
qed


lemma parse_Feb_30: "Parse_DateOnly (TrimSpace ''2024-02-30'') = None"
  by (simp add: TrimSpace_def trimLeftRunes.simps stripRune_def spaceRunes_def Parse_DateOnly_def
      longYear_def skipDash_def getnum_def isDigit_def digit_def daysIn_def isLeap_def)

lemma daysIn_monthLength:
  assumes "1 \<le> mo" and "mo \<le> 12"
  shows "daysIn mo y = monthLength y mo"
proof -
  from assms have "mo = 1 \<or> mo = 2 \<or> mo = 3 \<or> mo = 4 \<or> mo = 5 \<or> mo = 6 \<or> mo = 7 \<or>
      mo = 8 \<or> mo = 9 \<or> mo = 10 \<or> mo = 11 \<or> mo = 12"
    by arith
  then show ?thesis
    by (elim disjE) (simp_all add: daysIn_def monthLength_def isLeap_def leapYear_def dvd_eq_mod_eq_0)
qed

lemma Parse_DateOnly_ten:
  "Parse_DateOnly [y1, y2, y3, y4, h1, m1, m2, h2, d1, d2] = None \<longleftrightarrow>
   \<not> isoDate [y1, y2, y3, y4, h1, m1, m2, h2, d1, d2]"
proof (cases "1 \<le> digit m1 * 10 + digit m2 \<and> digit m1 * 10 + digit m2 \<le> 12")
  case True
  then show ?thesis
    using daysIn_monthLength [of "digit m1 * 10 + digit m2"]
    by (auto simp: Parse_DateOnly_def isoDate_def longYear_def skipDash_def getnum_def)
next
  case False
  then show ?thesis
    by (auto simp: Parse_DateOnly_def isoDate_def longYear_def skipDash_def getnum_def)
qed

lemma longYear_length: "longYear s = Some (y, r) \<Longrightarrow> length s = length r + 4"
  by (auto simp: longYear_def split: list.splits if_splits)

lemma skipDash_length: "skipDash s = Some r \<Longrightarrow> length s = length r + 1"
  by (auto simp: skipDash_def split: list.splits if_splits)

lemma getnum_length: "getnum s = Some (n, r) \<Longrightarrow> length s = length r + 2"
  by (auto simp: getnum_def split: list.splits if_splits)

lemma Parse_DateOnly_length:
  assumes "Parse_DateOnly s = Some d"
  shows "length s = 10"
proof -
  from assms obtain y v1 v2 mo v3 v4 dd where "longYear s = Some (y, v1)"
    "skipDash v1 = Some v2" "getnum v2 = Some (mo, v3)" "skipDash v3 = Some v4"
    "getnum v4 = Some (dd, [])"
    unfolding Parse_DateOnly_def by (auto split: option.splits if_splits)
  then show ?thesis
    by (auto dest!: longYear_length skipDash_length getnum_length)
qed

lemma isoDate_length: "isoDate s \<Longrightarrow> length s = 10"
  by (auto simp: isoDate_def split: list.splits)

lemma length_ten:
  assumes "length s = 10"
  obtains a b c d e f g h i j where "s = [a, b, c, d, e, f, g, h, i, j]"
  using assms by (auto simp: eval_nat_numeral length_Suc_conv)

lemma Parse_DateOnly_isoDate: "Parse_DateOnly s = None \<longleftrightarrow> \<not> isoDate s"
proof (cases "length s = 10")
  case True
  then obtain a b c d e f g h i j where "s = [a, b, c, d, e, f, g, h, i, j]"
    by (rule length_ten)
  then show ?thesis
    by (simp only: Parse_DateOnly_ten)
next
  case False
  with Parse_DateOnly_length have "Parse_DateOnly s = None"
    by (cases "Parse_DateOnly s") auto
  moreover from False isoDate_length have "\<not> isoDate s"
    by auto
  ultimately show ?thesis
    by simp
qed

subsection \<open>Minutes\<close>

lemma digit_char:
  assumes "d < 10"
  shows "isDigit (digitChar d) \<and> digit (digitChar d) = d"
proof -
  from assms have "d \<in> {0, 1, 2, 3, 4, 5, 6, 7, 8, 9}"
    by auto
  then show ?thesis
    by (auto simp: digitChar_def isDigit_def digit_def)
qed

lemma decimal_digits:
  "decimal n \<noteq> [] \<and> list_all isDigit (decimal n) \<and>
   foldl (\<lambda>acc c. acc * 10 + digit c) 0 (decimal n) = n"
proof (induction n rule: decimal.induct)
  case (1 n)
  show ?case
  proof (cases "n < 10")
    case True
    then show ?thesis
      using digit_char [of n] by (simp add: decimal.simps [of n])
  next
    case False
    have "n mod 10 < 10"
      by simp
    from digit_char [OF this] "1.IH" [OF False] False show ?thesis
      by (simp add: decimal.simps [of n])
  qed
qed

lemma atoi_decimal: "atoi (decimal n) = Some n"
  using decimal_digits [of n] by (simp add: atoi_def)

lemma checkValidMinute_decimal:
  assumes "n < 2 ^ 63"
  shows "checkValidMinute m (c # CHR '' '' # decimal n) = (m, of_nat n, True)"
  using assms decimal_digits [of n] by (simp add: checkValidMinute_def atoi_decimal)

lemma checkValidMinute_bare: "checkValidMinute m [c] = (m, 0, True)"
  by (simp add: checkValidMinute_def)

lemma of_nat_minutes_eq_0:
  assumes "n \<le> 153722867"
  shows "(of_nat n :: 64 word) = 0 \<longleftrightarrow> n = 0"
proof (cases "n = 0")
  case True
  then show ?thesis
    by simp
next
  case False
  with assms have "0 < n" and "n < 2 ^ LENGTH(64)"
    by simp_all
  then have "(of_nat n :: 64 word) \<noteq> 0"
    by (rule of_nat_neq_0)
  with False show ?thesis
    by simp
qed

lemma handleCommand_start:
  assumes "\<not> inSession m" and "n \<le> 153722867"
  shows "handleCommand e (''s '' @ decimal n) m =
           Inr (startSession (now e) workSession (of_nat (if n = 0 then 25 else n)) m, tickCmd)"
    and "handleCommand e (''b '' @ decimal n) m =
           Inr (startSession (now e) breakSession (of_nat (if n = 0 then 5 else n)) m, tickCmd)"
    and "handleCommand e ''s'' m = Inr (startSession (now e) workSession 25 m, tickCmd)"
    and "handleCommand e ''b'' m = Inr (startSession (now e) breakSession 5 m, tickCmd)"
proof -
  have lt: "n < 2 ^ 63"
    using assms(2) by simp
  note z = of_nat_minutes_eq_0 [OF assms(2)]
  show "handleCommand e (''s '' @ decimal n) m =
           Inr (startSession (now e) workSession (of_nat (if n = 0 then 25 else n)) m, tickCmd)"
    using assms(1) z checkValidMinute_decimal [OF lt, of m "CHR ''s''"]
    by (simp add: handleCommand_def)
  show "handleCommand e (''b '' @ decimal n) m =
           Inr (startSession (now e) breakSession (of_nat (if n = 0 then 5 else n)) m, tickCmd)"
    using assms(1) z checkValidMinute_decimal [OF lt, of m "CHR ''b''"]
    by (simp add: handleCommand_def)
  show "handleCommand e ''s'' m = Inr (startSession (now e) workSession 25 m, tickCmd)"
    using assms(1) checkValidMinute_bare [of m "CHR ''s''"]
    by (simp add: handleCommand_def)
  show "handleCommand e ''b'' m = Inr (startSession (now e) breakSession 5 m, tickCmd)"
    using assms(1) checkValidMinute_bare [of m "CHR ''b''"]
    by (simp add: handleCommand_def)
qed

lemma startSession_minutes:
  assumes "1 \<le> j" and "j \<le> 153722867"
  shows "phase (startSession t ty (of_nat j) m) = Opening \<and>
         sessionType (startSession t ty (of_nat j) m) = ty \<and>
         sint (timerDuration (startSession t ty (of_nat j) m)) = int j * 60000000000 \<and>
         sint (remainingTime (startSession t ty (of_nat j) m)) = int j * 60000000000 + 3000000000 \<and>
         percent (startSession t ty (of_nat j) m) = 0 \<and>
         startTime (startSession t ty (of_nat j) m) = t"
  using sint_minutes [OF assms(2)] by (simp add: startSession_def phase_def)

section \<open>The claims\<close>

subsection \<open>C1: the ticks of a 25-minute work session\<close>

text \<open>
  Claim C1. A work session started as Start(Work, 25min) has its remaining time set to
  25 minutes plus the 3-second pre-roll. Ticks are numbered from 0, so tick number
  \<open>25 * 60 + 3 - 1\<close> is the last of \<open>25 * 60 + 3\<close> ticks: after it the remaining time
  is 0 and the phase is Closing, while after every smaller number of ticks the phase is
  Opening or Active, the remaining time is positive and nothing has been appended.
  Exactly 4 further ticks move the phase to Idle (after 0 to 3 of them it is still
  Closing and nothing has been appended) and append exactly one session, whose duration
  is 25 minutes.
\<close>

theorem work_session_25_minutes:
  fixes es fs :: "env list"
  assumes "length es = 25 * 60 + 3" and "length fs = 4"
  shows "\<exists>m1 m2.
           ticks es (startSession t workSession 25 m) = Inr m1 \<and>
           remainingTime m1 = 0 \<and> phase m1 = Closing \<and>
           (\<forall>j < length es. \<exists>mj. ticks (take j es) (startSession t workSession 25 m) = Inr mj \<and>
              (phase mj = Opening \<or> phase mj = Active) \<and> 0 < sint (remainingTime mj) \<and>
              sessions mj = sessions m) \<and>
           (\<forall>j < 4. \<exists>mj. ticks (es @ take j fs) (startSession t workSession 25 m) = Inr mj \<and>
              phase mj = Closing \<and> sessions mj = sessions m) \<and>
           ticks (es @ fs) (startSession t workSession 25 m) = Inr m2 \<and>
           phase m2 = Idle \<and>
           sessions m2 = sessions m @
             [\<lparr>StartTime = t, EndTime = now (last fs), Duration = 25 * Minute\<rparr>]"
proof -
  let ?m0 = "startSession t workSession 25 m"
  have m0: "?m0 = startSession t workSession (of_nat 25) m"
    by simp
  have n: "(1::nat) \<le> 25" "(25::nat) \<le> 153722867"
    by simp_all
  have R: "\<exists>m'. ticks xs ?m0 = Inr m' \<and> reached 25 ?m0 xs m'" for xs
    using ticks_reached [OF n m0] .
  have f0: "sessions ?m0 = sessions m" "startTime ?m0 = t" "timerDuration ?m0 = 25 * Minute"
    "sessionType ?m0 = workSession"
    by (simp_all add: startSession_def)
  obtain m1 where t1: "ticks es ?m0 = Inr m1" and r1: "reached 25 ?m0 es m1"
    using R by blast
  obtain m2 where t2: "ticks (es @ fs) ?m0 = Inr m2" and r2: "reached 25 ?m0 (es @ fs) m2"
    using R by blast
  from r1 assms(1) have "sint (remainingTime m1) = 0"
    by (simp add: reached_def)
  then have a: "remainingTime m1 = 0"
    by (simp add: signed_eq_0_iff)
  have b: "phase m1 = Closing"
    using reached_phase [OF n(1) r1] assms(1) by (simp add: timetable_def)
  have c: "phase m2 = Idle"
    using reached_phase [OF n(1) r2] assms by (simp add: timetable_def)
  have "last fs = fs ! 3"
    using assms(2) by (cases fs) (auto simp: last_conv_nth)
  then have d: "sessions m2 = sessions m @
      [\<lparr>StartTime = t, EndTime = now (last fs), Duration = 25 * Minute\<rparr>]"
    using r2 assms f0 by (simp add: reached_def nth_append)
  have e: "\<exists>mj. ticks (take j es) ?m0 = Inr mj \<and> (phase mj = Opening \<or> phase mj = Active) \<and>
      0 < sint (remainingTime mj) \<and> sessions mj = sessions m" if "j < length es" for j
  proof -
    obtain mj where tj: "ticks (take j es) ?m0 = Inr mj" and rj: "reached 25 ?m0 (take j es) mj"
      using R by blast
    have l: "length (take j es) = j"
      using that by simp
    have "phase mj = Opening \<or> phase mj = Active"
      using reached_phase [OF n(1) rj] that assms(1) unfolding l by (simp add: timetable_def)
    moreover have "0 < sint (remainingTime mj)" "sessions mj = sessions m"
      using rj that assms(1) f0 unfolding reached_def l by simp_all
    ultimately show ?thesis
      using tj by blast
  qed
  have f: "\<exists>mj. ticks (es @ take j fs) ?m0 = Inr mj \<and> phase mj = Closing \<and>
      sessions mj = sessions m" if "j < 4" for j
  proof -
    obtain mj where tj: "ticks (es @ take j fs) ?m0 = Inr mj"
      and rj: "reached 25 ?m0 (es @ take j fs) mj"
      using R by blast
    have l: "length (es @ take j fs) = 1503 + j"
      using that assms by simp
    have "phase mj = Closing"
      using reached_phase [OF n(1) rj] that unfolding l by (simp add: timetable_def)
    moreover have "sessions mj = sessions m"
      using rj that f0 unfolding reached_def l by simp
    ultimately show ?thesis
      using tj by blast
  qed
  from t1 a b c d e f t2 show ?thesis
    by blast
qed

theorem work_session_25_minutes_witness:
  "length (replicate 1503 (outside 0)) = 25 * 60 + 3 \<and>
   length (replicate 4 (outside 9)) = 4 \<and>
   (\<exists>m1 m2.
      ticks (replicate 1503 (outside 0)) (startSession 0 workSession 25 (initialModel [])) = Inr m1 \<and>
      remainingTime m1 = 0 \<and> phase m1 = Closing \<and>
      ticks (replicate 1503 (outside 0) @ replicate 4 (outside 9))
        (startSession 0 workSession 25 (initialModel [])) = Inr m2 \<and>
      phase m2 = Idle \<and>
      sessions m2 = [\<lparr>StartTime = 0, EndTime = 9, Duration = 25 * Minute\<rparr>])"
proof -
  have h1: "length (replicate 1503 (outside 0)) = 25 * 60 + 3"
    by simp
  have h2: "length (replicate 4 (outside 9)) = 4"
    by simp
  have l: "last (replicate 4 (outside 9)) = outside 9"
    by simp
  from work_session_25_minutes [OF h1 h2, of 0 "initialModel []"]
  obtain m1 m2 where
    "ticks (replicate 1503 (outside 0)) (startSession 0 workSession 25 (initialModel [])) = Inr m1"
    "remainingTime m1 = 0" "phase m1 = Closing"
    "ticks (replicate 1503 (outside 0) @ replicate 4 (outside 9))
        (startSession 0 workSession 25 (initialModel [])) = Inr m2"
    "phase m2 = Idle"
    "sessions m2 = sessions (initialModel []) @
       [\<lparr>StartTime = 0, EndTime = now (last (replicate 4 (outside 9))), Duration = 25 * Minute\<rparr>]"
    by blast
  then show ?thesis
    unfolding l using h1 h2 by (simp add: initialModel_def outside_def)
qed

subsection \<open>C2: the Stop key\<close>

text \<open>
  Claim C2, as amended. A Stop key press while the phase is Active returns the phase to
  Idle at once (and clears the text widget) and appends no session. A Stop key press
  while the phase is Opening or Closing does not change the phase and appends no
  session: the guard of line 67 returns before the Stop binding is looked at, and the
  key press changes nothing but what the text widget makes of it.
\<close>

theorem Stop_key:
  assumes "Matches k (Stop keys)" and "phase m \<noteq> Idle"
  shows "\<exists>m'. Update e (KeyMsg k) m = Inr (m', nilCmd) \<and> sessions m' = sessions m \<and>
           phase m' = (if phase m = Active then Idle else phase m) \<and>
           m' = (if phase m = Active then m\<lparr>inSession := False, textarea := []\<rparr>
                 else m\<lparr>textarea := textarea_Update e (KeyMsg k) (textarea m)\<rparr>)"
  using assms by (auto simp: Update_def onKey_def phase_def split: if_splits)

theorem Stop_key_witness:
  "Matches (runeKey ''x'') (Stop keys) \<and>
   phase ((startSession 0 workSession 25 (initialModel []))\<lparr>opening' := False\<rparr>) \<noteq> Idle \<and>
   (\<exists>m'. Update (outside 1) (KeyMsg (runeKey ''x''))
            ((startSession 0 workSession 25 (initialModel []))\<lparr>opening' := False\<rparr>) =
           Inr (m', nilCmd) \<and>
         sessions m' = [] \<and> phase m' = Idle)"
proof -
  let ?m = "(startSession 0 workSession 25 (initialModel []))\<lparr>opening' := False\<rparr>"
  have h1: "Matches (runeKey ''x'') (Stop keys)"
    by (simp add: Matches_def runeKey_def keyString_def keys_def)
  have h2: "phase ?m \<noteq> Idle"
    by (simp add: phase_def startSession_def)
  have a: "phase ?m = Active" "sessions ?m = []"
    by (simp_all add: phase_def startSession_def initialModel_def)
  from Stop_key [OF h1 h2, of "outside 1"] show ?thesis
    using h1 h2 a by auto
qed

text \<open>
  The claim as stated fails in the Opening phase: a Stop key press on a session that
  has just started leaves it in Opening.
\<close>

theorem Stop_key_in_Opening:
  "Matches (runeKey ''x'') (Stop keys) \<and>
   phase (startSession 0 workSession 25 (initialModel [])) = Opening \<and>
   Update (outside 1) (KeyMsg (runeKey ''x'')) (startSession 0 workSession 25 (initialModel [])) =
     Inr ((startSession 0 workSession 25 (initialModel []))\<lparr>textarea := ''x''\<rparr>, nilCmd) \<and>
   phase ((startSession 0 workSession 25 (initialModel []))\<lparr>textarea := ''x''\<rparr>) = Opening"
  by (simp add: Matches_def runeKey_def keyString_def keys_def phase_def startSession_def
      initialModel_def Update_def onKey_def outside_def typing_def)

subsection \<open>C3: a start request while a session runs\<close>

text \<open>
  Claim C3. In every state whose phase is not Idle, a submitted command line that begins
  with \<^verbatim>\<open>s\<close> or \<^verbatim>\<open>b\<close> (a StartWork or StartBreak request, valid or not) leaves phase,
  sessionType, timerDuration, remainingTime, startTime and percent unchanged, returns
  no command (no tick is scheduled) and appends no session.
\<close>

theorem start_while_running:
  assumes "phase m \<noteq> Idle" and "Type k = KeyEnter"
    and "command = textarea_Update e (KeyMsg k) (textarea m)"
    and "prefix ''s'' command \<or> prefix ''b'' command"
  shows "\<exists>m'. Update e (KeyMsg k) m = Inr (m', nilCmd) \<and>
           phase m' = phase m \<and> sessionType m' = sessionType m \<and>
           timerDuration m' = timerDuration m \<and> remainingTime m' = remainingTime m \<and>
           startTime m' = startTime m \<and> percent m' = percent m \<and>
           sessions m' = sessions m"
proof -
  let ?m = "m\<lparr>textarea := command\<rparr>"
  from assms(1) have ins: "inSession m"
    by (simp add: phase_def split: if_splits)
  show ?thesis
  proof (cases "opening' m \<or> closing m")
    case True
    with ins assms(3) have "Update e (KeyMsg k) m = Inr (?m, nilCmd)"
      by (simp add: Update_def onKey_def)
    then show ?thesis
      by (simp add: phase_def)
  next
    case False
    have nb: "\<not> Matches k (Stop keys)" "\<not> Matches k (Quit keys)"
      using Enter_no_binding [OF assms(2)] by simp_all
    have "Update e (KeyMsg k) m = handleCommand e command (?m\<lparr>err := [], textarea := []\<rparr>)"
      using False ins assms(2,3) nb by (simp add: Update_def onKey_def)
    moreover have "inSession (?m\<lparr>err := [], textarea := []\<rparr>)"
      using ins by simp
    from handleCommand_running [OF this assms(4)] obtain msg where
      "handleCommand e command (?m\<lparr>err := [], textarea := []\<rparr>) =
         Inr (?m\<lparr>err := [], textarea := [], err := msg\<rparr>, nilCmd)"
      by blast
    ultimately have "Update e (KeyMsg k) m =
        Inr (?m\<lparr>err := [], textarea := [], err := msg\<rparr>, nilCmd)"
      by simp
    then show ?thesis
      by (simp add: phase_def)
  qed
qed

theorem start_while_running_witness:
  "phase ((startSession 0 workSession 25 (initialModel []))\<lparr>opening' := False, textarea := ''b 5''\<rparr>)
     \<noteq> Idle \<and>
   Type enterKey = KeyEnter \<and>
   ''b 5'' = textarea_Update (outside 1) (KeyMsg enterKey)
      (textarea ((startSession 0 workSession 25 (initialModel []))
         \<lparr>opening' := False, textarea := ''b 5''\<rparr>)) \<and>
   (prefix ''s'' ''b 5'' \<or> prefix ''b'' ''b 5'') \<and>
   (\<exists>m'. Update (outside 1) (KeyMsg enterKey)
            ((startSession 0 workSession 25 (initialModel []))
               \<lparr>opening' := False, textarea := ''b 5''\<rparr>) = Inr (m', nilCmd) \<and>
         phase m' = Active \<and> sessionType m' = workSession \<and>
         timerDuration m' = 25 * Minute \<and> remainingTime m' = 25 * Minute + 3 * Second \<and>
         startTime m' = 0 \<and> percent m' = 0 \<and> sessions m' = [])"
proof -
  let ?m = "(startSession 0 workSession 25 (initialModel []))
              \<lparr>opening' := False, textarea := ''b 5''\<rparr>"
  have h1: "phase ?m \<noteq> Idle"
    by (simp add: phase_def startSession_def)
  have h2: "Type enterKey = KeyEnter"
    by (simp add: enterKey_def)
  have h3: "''b 5'' = textarea_Update (outside 1) (KeyMsg enterKey) (textarea ?m)"
    by (simp add: outside_def typing_def enterKey_def)
  have h4: "prefix ''s'' ''b 5'' \<or> prefix ''b'' ''b 5''"
    by simp
  have a: "phase ?m = Active" "sessionType ?m = workSession" "timerDuration ?m = 25 * Minute"
    "remainingTime ?m = 25 * Minute + 3 * Second" "startTime ?m = 0" "percent ?m = 0"
    "sessions ?m = []"
    by (simp_all add: phase_def startSession_def initialModel_def)
  from start_while_running [OF h1 h2 h3 h4] show ?thesis
    using h1 h2 h3 h4 unfolding a by blast
qed

subsection \<open>C4: the progress value\<close>

text \<open>
  Claim C4, as amended. In a session of \<open>n\<close> minutes (\<open>n\<close> positive, and small enough for
  the duration to fit 64 bits) the progress value never decreases from one tick to the
  next, in the Active phase as in every other. On the tick on which the phase goes from
  Active to Closing, \<^verbatim>\<open>Update\<close> returns at line 228 before it computes the progress: the
  value stays what the tick before left. It is below 1.0 after every tick.
\<close>

theorem percent_over_ticks:
  assumes "1 \<le> n" and "n \<le> 153722867"
  shows "\<exists>m1 m2. ticks es (startSession t ty (of_nat n) m) = Inr m1 \<and>
           ticks (es @ [e]) (startSession t ty (of_nat n) m) = Inr m2 \<and>
           percent m1 \<le> percent m2 \<and> percent m2 < 1 \<and>
           (phase m1 = Active \<and> phase m2 = Closing \<longrightarrow> percent m2 = percent m1)"
proof -
  let ?m0 = "startSession t ty (of_nat n) m"
  obtain m1 where t1: "ticks es ?m0 = Inr m1" and r1: "reached n ?m0 es m1"
    using ticks_reached [OF assms refl] by blast
  obtain m2 where t2: "ticks (es @ [e]) ?m0 = Inr m2" and r2: "reached n ?m0 (es @ [e]) m2"
    using ticks_reached [OF assms refl] by blast
  have p1: "percent m1 = progressAt n (length es)" and p2: "percent m2 = progressAt n (Suc (length es))"
    using r1 r2 by (simp_all add: reached_def)
  have ph1: "phase m1 = timetable n (length es)" and ph2: "phase m2 = timetable n (Suc (length es))"
    using reached_phase [OF assms(1) r1] reached_phase [OF assms(1) r2] by simp_all
  have "phase m1 = Active \<and> phase m2 = Closing \<longrightarrow> length es = 60 * n + 2"
    unfolding ph1 ph2 by (auto simp: timetable_def split: if_splits)
  moreover have "length es = 60 * n + 2 \<longrightarrow>
      progressAt n (Suc (length es)) = progressAt n (length es)"
    using assms(1) by (auto simp: progressAt_def)
  ultimately show ?thesis
    using t1 t2 p1 p2 progressAt_mono [OF assms(1)] progressAt_less_1 [OF assms(1)]
    by auto
qed

theorem percent_over_ticks_witness:
  "(1::nat) \<le> 25 \<and> (25::nat) \<le> 153722867 \<and>
   (\<exists>m1 m2.
      ticks (replicate 1502 (outside 0)) (startSession 0 workSession 25 (initialModel [])) = Inr m1 \<and>
      ticks (replicate 1502 (outside 0) @ [outside 0])
        (startSession 0 workSession 25 (initialModel [])) = Inr m2 \<and>
      percent m1 \<le> percent m2 \<and> percent m2 < 1)"
proof -
  have h1: "(1::nat) \<le> 25"
    by simp
  have h2: "(25::nat) \<le> 153722867"
    by simp
  from percent_over_ticks [OF h1 h2, of "replicate 1502 (outside 0)" 0 workSession
      "initialModel []" "outside 0"]
  show ?thesis
    by auto
qed

text \<open>
  The claim as stated fails on the tick that ends the Active phase of a 25-minute work
  session: after 1502 ticks the phase is Active, after 1503 it is Closing, and the
  progress value is the one the tick before left, below 1.0.
\<close>

theorem percent_at_Closing:
  "phase (projr (ticks (replicate 1502 (outside 0))
      (startSession 0 workSession 25 (initialModel [])))) = Active \<and>
   phase (projr (ticks (replicate 1503 (outside 0))
      (startSession 0 workSession 25 (initialModel [])))) = Closing \<and>
   percent (projr (ticks (replicate 1503 (outside 0))
      (startSession 0 workSession 25 (initialModel [])))) =
   percent (projr (ticks (replicate 1502 (outside 0))
      (startSession 0 workSession 25 (initialModel [])))) \<and>
   percent (projr (ticks (replicate 1503 (outside 0))
      (startSession 0 workSession 25 (initialModel [])))) < 1 \<and>
   percent (projr (ticks (replicate 1503 (outside 0))
      (startSession 0 workSession 25 (initialModel [])))) \<noteq> 1"
proof -
  let ?m0 = "startSession 0 workSession 25 (initialModel [])"
  have m0: "?m0 = startSession 0 workSession (of_nat 25) (initialModel [])"
    by simp
  have n: "(1::nat) \<le> 25" "(25::nat) \<le> 153722867"
    by simp_all
  obtain m1 where t1: "ticks (replicate 1502 (outside 0)) ?m0 = Inr m1"
    and r1: "reached 25 ?m0 (replicate 1502 (outside 0)) m1"
    using ticks_reached [OF n m0] by blast
  obtain m2 where t2: "ticks (replicate 1503 (outside 0)) ?m0 = Inr m2"
    and r2: "reached 25 ?m0 (replicate 1503 (outside 0)) m2"
    using ticks_reached [OF n m0] by blast
  have "phase m1 = Active"
    using reached_phase [OF n(1) r1] by (simp add: timetable_def)
  moreover have "phase m2 = Closing"
    using reached_phase [OF n(1) r2] by (simp add: timetable_def)
  moreover have "percent m2 = percent m1" "percent m2 < 1"
    using r1 r2 by (simp_all add: reached_def progressAt_def)
  ultimately show ?thesis
    using t1 t2 by simp
qed

subsection \<open>C5: a Break is never logged\<close>

text \<open>
  Claim C5. Take any state in which a Break session runs and any sequence of messages
  (key presses, submitted command lines, ticks, anything else) during which the session
  lasts: before each message of the sequence a session is running. Then the state after
  the whole sequence, the message that ends the session included (the tick that
  completes the Closing phase, or a Stop), has the session list it started with. The
  witness runs a Break of 5 minutes through all its 307 ticks to Idle.
\<close>

theorem break_never_logged:
  assumes "inSession m" and "sessionType m = breakSession"
    and "run evs m = Inr m'"
    and "\<forall>i < length evs. \<forall>mi. run (take i evs) m = Inr mi \<longrightarrow> inSession mi"
  shows "sessions m' = sessions m"
  using break_run [OF assms] by simp

theorem break_never_logged_witness:
  "inSession (startSession 0 breakSession 5 (initialModel [])) \<and>
   sessionType (startSession 0 breakSession 5 (initialModel [])) = breakSession \<and>
   (\<exists>m'. run (map (\<lambda>e. (e, tickMsg)) (replicate 307 (outside 0)))
            (startSession 0 breakSession 5 (initialModel [])) = Inr m' \<and>
         phase m' = Idle \<and> sessions m' = [])"
proof -
  let ?m0 = "startSession 0 breakSession 5 (initialModel [])"
  let ?evs = "map (\<lambda>e. (e, tickMsg)) (replicate 307 (outside 0))"
  have m0: "?m0 = startSession 0 breakSession (of_nat 5) (initialModel [])"
    by simp
  have n: "(1::nat) \<le> 5" "(5::nat) \<le> 153722867"
    by simp_all
  have R: "\<exists>m'. ticks xs ?m0 = Inr m' \<and> reached 5 ?m0 xs m'" for xs
    using ticks_reached [OF n m0] .
  have h1: "inSession ?m0"
    by (simp add: startSession_def)
  have h2: "sessionType ?m0 = breakSession"
    by (simp add: startSession_def)
  obtain m' where t: "ticks (replicate 307 (outside 0)) ?m0 = Inr m'"
    and r: "reached 5 ?m0 (replicate 307 (outside 0)) m'"
    using R by blast
  have h3: "run ?evs ?m0 = Inr m'"
    using t by (simp add: ticks_def)
  have h4: "\<forall>i < length ?evs. \<forall>mi. run (take i ?evs) ?m0 = Inr mi \<longrightarrow> inSession mi"
  proof (intro allI impI)
    fix i mi
    assume i: "i < length ?evs" and "run (take i ?evs) ?m0 = Inr mi"
    then have ti: "ticks (replicate i (outside 0)) ?m0 = Inr mi"
      by (simp add: ticks_def take_map min_def)
    obtain mj where "ticks (replicate i (outside 0)) ?m0 = Inr mj"
      and "reached 5 ?m0 (replicate i (outside 0)) mj"
      using R by blast
    with ti i show "inSession mi"
      by (simp add: reached_def)
  qed
  have "phase m' = Idle"
    using reached_phase [OF n(1) r] by (simp add: timetable_def)
  moreover from break_never_logged [OF h1 h2 h3 h4] have "sessions m' = []"
    by (simp add: startSession_def initialModel_def)
  ultimately show ?thesis
    using h1 h2 h3 by blast
qed

subsection \<open>C6: a failed save\<close>

text \<open>
  Claim C6, as amended. On the tick that completes a Work session, when \<^verbatim>\<open>saveSessions\<close>
  fails with the error \<open>msg\<close>: \<^verbatim>\<open>Update\<close> returns (it does not panic), \<^verbatim>\<open>m.err\<close> is \<open>msg\<close>,
  the phase is Idle with the closing flag cleared and the completed session stays
  appended, so the completion is not rolled back. When the list view is closed, the
  screen shows \<open>msg\<close> at once. When the list view is open, the screen shows the list and
  not \<open>msg\<close>; a Stop key press then closes the list and the screen shows \<open>msg\<close>, while
  any other key press but Enter clears \<^verbatim>\<open>m.err\<close> (line 89).
\<close>

theorem save_failure_surfaced:
  assumes "completingTick m" and "sessionType m = workSession"
    and "saveSessions e (sessions m @ [completed e m]) = Some msg"
  shows "\<exists>m'. Update e tickMsg m = Inr (m', nilCmd) \<and> err m' = msg \<and> phase m' = Idle \<and>
           \<not> closing m' \<and> timerDuration m' = timerDuration m \<and>
           sessions m' = sessions m @ [completed e m] \<and>
           (\<not> showSession m \<longrightarrow>
              View ui m' = [CHR 0x0A] @ showHelper ui @ [CHR 0x0A] @
                textarea_View ui (textarea m') @ [CHR 0x0A, CHR 0x0A] @ msg @
                [CHR 0x0A, CHR 0x0A]) \<and>
           (showSession m \<longrightarrow>
              View ui m' = [CHR 0x0A] @
                printSessions ui (sessions m') (printDifferentDate m') (datePrint m') @
                [CHR 0x0A] @ stopHelp ui \<and>
              (\<forall>e2 k. Matches k (Stop keys) \<longrightarrow>
                 (\<exists>m2. Update e2 (KeyMsg k) m' = Inr (m2, nilCmd) \<and>
                    View ui m2 = [CHR 0x0A] @ showHelper ui @ [CHR 0x0A] @
                      textarea_View ui (textarea m2) @ [CHR 0x0A, CHR 0x0A] @ msg @
                      [CHR 0x0A, CHR 0x0A])) \<and>
              (\<forall>e2 k m2 c. \<not> Matches k (Stop keys) \<and> Type k \<noteq> KeyEnter \<and>
                 Update e2 (KeyMsg k) m' = Inr (m2, c) \<longrightarrow> err m2 = []))"
proof -
  define m' where "m' = m\<lparr>textarea := textarea_Update e tickMsg (textarea m),
            remainingTime := remainingTime m - 1 * Second, closing := False, inSession := False,
            sessions := sessions m @ [completed e m], err := msg\<rparr>"
  have u: "Update e tickMsg m = Inr (m', nilCmd)"
    using Update_completing [OF assms(1,2), of e] assms(3) by (simp add: m'_def)
  have f: "err m' = msg" "\<not> inSession m'" "\<not> closing m'" "timerDuration m' = timerDuration m"
    "sessions m' = sessions m @ [completed e m]" "showSession m' = showSession m"
    by (simp_all add: m'_def)
  have a: "\<not> showSession m \<longrightarrow>
      View ui m' = [CHR 0x0A] @ showHelper ui @ [CHR 0x0A] @
        textarea_View ui (textarea m') @ [CHR 0x0A, CHR 0x0A] @ msg @ [CHR 0x0A, CHR 0x0A]"
    using f by (simp add: View_def)
  have b: "showSession m \<longrightarrow>
      View ui m' = [CHR 0x0A] @
        printSessions ui (sessions m') (printDifferentDate m') (datePrint m') @
        [CHR 0x0A] @ stopHelp ui"
    using f by (simp add: View_def)
  have c: "showSession m \<longrightarrow> (\<forall>e2 k. Matches k (Stop keys) \<longrightarrow>
      (\<exists>m2. Update e2 (KeyMsg k) m' = Inr (m2, nilCmd) \<and>
         View ui m2 = [CHR 0x0A] @ showHelper ui @ [CHR 0x0A] @
           textarea_View ui (textarea m2) @ [CHR 0x0A, CHR 0x0A] @ msg @
           [CHR 0x0A, CHR 0x0A]))"
    using f by (simp add: Update_def onKey_def View_def)
  have d: "showSession m \<longrightarrow> (\<forall>e2 k m2 c. \<not> Matches k (Stop keys) \<and> Type k \<noteq> KeyEnter \<and>
      Update e2 (KeyMsg k) m' = Inr (m2, c) \<longrightarrow> err m2 = [])"
    using f other_key_clears_err [of m'] by blast
  have "phase m' = Idle"
    using f by (simp add: phase_def)
  with u f a b c d show ?thesis
    by blast
qed

theorem save_failure_surfaced_witness:
  "\<exists>m m'. ticks (replicate 1506 (outside 0)) (startSession 0 workSession 25 (initialModel [])) = Inr m \<and>
      completingTick m \<and> sessionType m = workSession \<and>
      saveSessions (brokenDisk 9) (sessions m @ [completed (brokenDisk 9) m]) =
        Some ''permission denied'' \<and>
      Update (brokenDisk 9) tickMsg m = Inr (m', nilCmd) \<and>
      err m' = ''permission denied'' \<and> phase m' = Idle \<and> \<not> closing m' \<and>
      timerDuration m' = 25 * Minute \<and>
      sessions m' = [\<lparr>StartTime = 0, EndTime = 9, Duration = 25 * Minute\<rparr>] \<and>
      View plainScreen m' = [CHR 0x0A] @ ''help'' @ [CHR 0x0A] @ textarea m' @
        [CHR 0x0A, CHR 0x0A] @ ''permission denied'' @ [CHR 0x0A, CHR 0x0A]"
proof -
  let ?m0 = "startSession 0 workSession 25 (initialModel [])"
  have m0: "?m0 = startSession 0 workSession (of_nat 25) (initialModel [])"
    by simp
  have n: "(1::nat) \<le> 25" "(25::nat) \<le> 153722867"
    by simp_all
  obtain m where t: "ticks (replicate 1506 (outside 0)) ?m0 = Inr m"
    and r: "reached 25 ?m0 (replicate 1506 (outside 0)) m"
    using ticks_reached [OF n m0] by blast
  have h1: "completingTick m"
    using r by (rule reached_completing) simp
  from r have f: "sessionType m = workSession" "timerDuration m = 25 * Minute"
    "sessions m = []" "startTime m = 0"
    by (simp_all add: reached_def startSession_def initialModel_def)
  have ns: "\<not> showSession m"
    using ticks_showSession [OF t] by (simp add: startSession_def initialModel_def)
  have h3: "saveSessions (brokenDisk 9) (sessions m @ [completed (brokenDisk 9) m]) =
      Some ''permission denied''"
    by (simp add: brokenDisk_def saveFails_def)
  have cp: "completed (brokenDisk 9) m = \<lparr>StartTime = 0, EndTime = 9, Duration = 25 * Minute\<rparr>"
    using f by (simp add: completed_def brokenDisk_def)
  from save_failure_surfaced [OF h1 f(1) h3, of plainScreen] ns
  obtain m' where "Update (brokenDisk 9) tickMsg m = Inr (m', nilCmd)"
    "err m' = ''permission denied''" "phase m' = Idle" "\<not> closing m'"
    "timerDuration m' = timerDuration m" "sessions m' = sessions m @ [completed (brokenDisk 9) m]"
    "View plainScreen m' = [CHR 0x0A] @ showHelper plainScreen @ [CHR 0x0A] @
       textarea_View plainScreen (textarea m') @ [CHR 0x0A, CHR 0x0A] @ ''permission denied'' @
       [CHR 0x0A, CHR 0x0A]"
    by blast
  then show ?thesis
    using t h1 f h3 cp by (intro exI [of _ m] exI [of _ m']) (simp add: plainScreen_def)
qed

text \<open>
  The claim as stated fails when the list view is open on the completing tick: in the
  run \<open>hiddenFailure\<close> the save fails, the screen shows the list of one session and no
  error, and the next key press, an \<^verbatim>\<open>a\<close>, clears the error before it was ever shown.
\<close>

theorem save_failure_behind_list:
  "phase (projr (run hiddenFailure (initialModel []))) = Idle \<and>
   err (projr (run hiddenFailure (initialModel []))) = ''permission denied'' \<and>
   View plainScreen (projr (run hiddenFailure (initialModel []))) =
     [CHR 0x0A] @ ''*'' @ [CHR 0x0A] @ ''stop'' \<and>
   err (projr (run (hiddenFailure @ [(outside 10, KeyMsg (runeKey ''a''))])
     (initialModel []))) = []"
proof -
  obtain m1 where r: "run hiddenFailure (initialModel []) = Inr m1" and f: "\<not> inSession m1"
    "showSession m1" "err m1 = ''permission denied''" "length (sessions m1) = 1"
    using run_hiddenFailure by blast
  have v: "View plainScreen m1 = [CHR 0x0A] @ ''*'' @ [CHR 0x0A] @ ''stop''"
    using f by (simp add: View_def plainScreen_def)
  have k: "\<not> Matches (runeKey ''a'') (Stop keys)" "Type (runeKey ''a'') \<noteq> KeyEnter"
    by (simp_all add: Matches_def keyString_def keys_def runeKey_def)
  obtain m2 c where u: "Update (outside 10) (KeyMsg (runeKey ''a'')) m1 = Inr (m2, c)"
    using f by (auto simp: Update_def onKey_def Let_def runeKey_def Matches_def keyString_def
        keys_def)
  from other_key_clears_err [OF f(1) k u] have "err m2 = []" .
  with u r have "err (projr (run (hiddenFailure @ [(outside 10, KeyMsg (runeKey ''a''))])
     (initialModel []))) = []"
    by (simp add: run_append)
  with r f v show ?thesis
    by (simp add: phase_def)
qed

subsection \<open>C7: the list commands\<close>




subsection \<open>C8: invalid list lines\<close>

text \<open>
  Claim C8, as amended. The line \<^verbatim>\<open>l 2024-02-30\<close> yields Invalid: \<^verbatim>\<open>Update\<close>'s switch
  returns (no slice expression panics) with the reason "Invalid date format" in
  \<^verbatim>\<open>m.err\<close> and nothing else changed. The bare line \<^verbatim>\<open>l\<close>, whose suffix is empty, is the
  List command. For every line \<^verbatim>\<open>l<suffix>\<close> with a suffix that is not empty, where the
  suffix does not begin with a space or the trimmed suffix is not a valid ISO
  \<^verbatim>\<open>YYYY-MM-DD\<close> date, the result is Invalid: the reason is "Invalid command" when the
  space is missing and "Invalid date format" otherwise.
\<close>

theorem list_line_invalid:
  "handleCommand e ''l 2024-02-30'' m = Inr (m\<lparr>err := ''Invalid date format''\<rparr>, nilCmd) \<and>
   handleCommand e ''l'' m = Inr (m\<lparr>printDifferentDate := False, showSession := True\<rparr>, nilCmd) \<and>
   (sfx \<noteq> [] \<and> (\<not> prefix '' '' sfx \<or> \<not> isoDate (TrimSpace sfx)) \<longrightarrow>
      handleCommand e (CHR ''l'' # sfx) m =
        Inr (m\<lparr>err := (if \<not> prefix '' '' sfx then ''Invalid command''
                        else ''Invalid date format'')\<rparr>, nilCmd))"
proof (intro conjI impI)
  have "prefix ''l'' ''l 2024-02-30''"
    by simp
  from handleCommand_list [OF this, of e m] parse_Feb_30
  show "handleCommand e ''l 2024-02-30'' m = Inr (m\<lparr>err := ''Invalid date format''\<rparr>, nilCmd)"
    by simp
next
  show "handleCommand e ''l'' m =
      Inr (m\<lparr>printDifferentDate := False, showSession := True\<rparr>, nilCmd)"
    by (simp add: handleCommand_def)
next
  assume a: "sfx \<noteq> [] \<and> (\<not> prefix '' '' sfx \<or> \<not> isoDate (TrimSpace sfx))"
  have p: "prefix ''l'' (CHR ''l'' # sfx)"
    by simp
  show "handleCommand e (CHR ''l'' # sfx) m =
        Inr (m\<lparr>err := (if \<not> prefix '' '' sfx then ''Invalid command''
                        else ''Invalid date format'')\<rparr>, nilCmd)"
  proof (cases "prefix '' '' sfx")
    case False
    with a show ?thesis
      unfolding handleCommand_list [OF p] by simp
  next
    case True
    then obtain rest where s: "sfx = CHR '' '' # rest"
      by (auto simp: prefix_def)
    with a True have "\<not> isoDate (TrimSpace rest)"
      by (simp add: TrimSpace_space)
    then have "Parse_DateOnly (TrimSpace rest) = None"
      by (simp add: Parse_DateOnly_isoDate)
    with s show ?thesis
      unfolding handleCommand_list [OF p] by simp
  qed
qed

theorem list_line_invalid_witness:
  "'' 2024-13-01'' \<noteq> [] \<and> \<not> isoDate (TrimSpace '' 2024-13-01'') \<and>
   ''l2024-01-01'' \<noteq> [] \<and> \<not> prefix '' '' ''2024-01-01'' \<and>
   handleCommand (outside 0) ''l 2024-02-30'' (initialModel []) =
     Inr ((initialModel [])\<lparr>err := ''Invalid date format''\<rparr>, nilCmd) \<and>
   handleCommand (outside 0) ''l 2024-13-01'' (initialModel []) =
     Inr ((initialModel [])\<lparr>err := ''Invalid date format''\<rparr>, nilCmd) \<and>
   handleCommand (outside 0) ''l2024-01-01'' (initialModel []) =
     Inr ((initialModel [])\<lparr>err := ''Invalid command''\<rparr>, nilCmd)"
proof -
  have "Parse_DateOnly (TrimSpace '' 2024-13-01'') = None"
    by (simp add: TrimSpace_def trimLeftRunes.simps stripRune_def spaceRunes_def Parse_DateOnly_def
      longYear_def skipDash_def getnum_def isDigit_def digit_def daysIn_def isLeap_def)
  then have h: "\<not> isoDate (TrimSpace '' 2024-13-01'')"
    by (simp add: Parse_DateOnly_isoDate)
  from list_line_invalid [of "outside 0" "initialModel []" "'' 2024-13-01''"]
    list_line_invalid [of "outside 0" "initialModel []" "''2024-01-01''"] h
  show ?thesis
    by simp
qed

text \<open>
  The claim as stated fails at the empty suffix: it does not begin with a space and,
  trimmed, is no date, yet the line \<^verbatim>\<open>l\<close> is the List command and sets no error.
\<close>

theorem bare_l_is_List:
  "\<not> prefix '' '' ([] :: string) \<and> \<not> isoDate (TrimSpace []) \<and>
   handleCommand (outside 0) (CHR ''l'' # []) (initialModel []) =
     Inr ((initialModel [])\<lparr>printDifferentDate := False, showSession := True\<rparr>, nilCmd) \<and>
   err ((initialModel [])\<lparr>printDifferentDate := False, showSession := True\<rparr>) = []"
  by (simp add: handleCommand_def initialModel_def TrimSpace_def trimLeftRunes.simps
      stripRune_def isoDate_def)

subsection \<open>C9: the start commands\<close>

text \<open>
  Claim C9, as amended. For a command line submitted while the phase is Idle: \<^verbatim>\<open>s <n>\<close>
  and \<^verbatim>\<open>b <n>\<close>, with \<open>n\<close> a positive integer of at most 153722867, start a Work and a
  Break session of \<open>n\<close> minutes; the bare lines \<^verbatim>\<open>s\<close> and \<^verbatim>\<open>b\<close> start sessions of 25 and
  of 5 minutes; and \<^verbatim>\<open>s 0\<close> and \<^verbatim>\<open>b 0\<close> start sessions of these defaults, not of zero
  length. To start a session of \<open>j\<close> minutes is to enter the Opening phase with that
  session type, a timerDuration of \<open>j\<close> minutes, a remainingTime of \<open>j\<close> minutes and 3
  seconds, progress 0, the start time read from the clock, and a tick scheduled.
\<close>

theorem start_command:
  assumes "Type k = KeyEnter" and "phase m = Idle" and "n \<le> 153722867"
    and "command = textarea_Update e (KeyMsg k) (textarea m)"
    and "(command, ty, j) \<in>
           {(''s '' @ decimal n, workSession, if n = 0 then 25 else n),
            (''b '' @ decimal n, breakSession, if n = 0 then 5 else n),
            (''s'', workSession, 25),
            (''b'', breakSession, 5)}"
  shows "\<exists>m'. Update e (KeyMsg k) m = Inr (m', tickCmd) \<and>
           phase m' = Opening \<and> sessionType m' = ty \<and>
           sint (timerDuration m') = int j * 60000000000 \<and>
           sint (remainingTime m') = int j * 60000000000 + 3000000000 \<and>
           percent m' = 0 \<and> startTime m' = now e \<and> sessions m' = sessions m"
proof -
  from assms(2) have idle: "\<not> inSession m"
    by (simp add: phase_def split: if_splits)
  then have ni: "\<not> (inSession m \<and> (opening' m \<or> closing m))"
    by simp
  let ?m0 = "m\<lparr>err := [], textarea := []\<rparr>"
  have u: "Update e (KeyMsg k) m = handleCommand e command ?m0"
    using Enter_handleCommand [OF assms(1) ni, of e] assms(4) by simp
  have i0: "\<not> inSession ?m0"
    using idle by simp
  note h = handleCommand_start [OF i0 assms(3), of e]
  have j: "1 \<le> j" "j \<le> 153722867"
    using assms(3,5) by (auto split: if_splits)
  have "handleCommand e command ?m0 = Inr (startSession (now e) ty (of_nat j) ?m0, tickCmd)"
    using assms(5) h by (auto split: if_splits)
  moreover have "sessions (startSession (now e) ty (of_nat j) ?m0) = sessions m"
    by (simp add: startSession_def)
  ultimately show ?thesis
    unfolding u using startSession_minutes [OF j, of "now e" ty ?m0] by simp
qed

theorem start_command_witness:
  "Type enterKey = KeyEnter \<and> phase ((initialModel [])\<lparr>textarea := ''s 10''\<rparr>) = Idle \<and>
   (10::nat) \<le> 153722867 \<and>
   ''s 10'' = textarea_Update (outside 7) (KeyMsg enterKey)
      (textarea ((initialModel [])\<lparr>textarea := ''s 10''\<rparr>)) \<and>
   ''s 10'' = ''s '' @ decimal 10 \<and>
   (\<exists>m'. Update (outside 7) (KeyMsg enterKey) ((initialModel [])\<lparr>textarea := ''s 10''\<rparr>) =
           Inr (m', tickCmd) \<and>
         phase m' = Opening \<and> sessionType m' = workSession \<and>
         sint (timerDuration m') = 600000000000 \<and>
         sint (remainingTime m') = 603000000000 \<and>
         percent m' = 0 \<and> startTime m' = 7 \<and> sessions m' = [])"
proof -
  let ?m = "(initialModel [])\<lparr>textarea := ''s 10''\<rparr>"
  have h1: "Type enterKey = KeyEnter"
    by (simp add: enterKey_def)
  have h2: "phase ?m = Idle"
    by (simp add: phase_def initialModel_def)
  have h3: "(10::nat) \<le> 153722867"
    by simp
  have h4: "''s 10'' = textarea_Update (outside 7) (KeyMsg enterKey) (textarea ?m)"
    by (simp add: outside_def typing_def enterKey_def)
  have d: "''s 10'' = ''s '' @ decimal 10"
    by (simp add: decimal.simps digitChar_def)
  have h5: "(''s 10'', workSession, 10) \<in>
           {(''s '' @ decimal 10, workSession, if (10::nat) = 0 then 25 else 10),
            (''b '' @ decimal 10, breakSession, if (10::nat) = 0 then 5 else 10),
            (''s'', workSession, 25),
            (''b'', breakSession, 5)}"
    using d by simp
  have f: "now (outside 7) = 7" "sessions ?m = []"
    by (simp_all add: outside_def initialModel_def)
  from start_command [OF h1 h2 h3 h4 h5] show ?thesis
    using h1 h2 h4 d unfolding f by simp
qed

text \<open>
  The claim as stated fails in two ways. Submitted in the Idle phase, \<^verbatim>\<open>s 153722868\<close>
  starts a session whose duration has wrapped around in 64 bits and is negative. And
  submitted while a Break of 5 minutes is Active, \<^verbatim>\<open>s 10\<close> starts nothing: the Break
  goes on.
\<close>

theorem start_not_n_minutes:
  "''s 153722868'' = ''s '' @ decimal 153722868 \<and>
   phase ((initialModel [])\<lparr>textarea := ''s 153722868''\<rparr>) = Idle \<and>
   Update (outside 0) (KeyMsg enterKey) ((initialModel [])\<lparr>textarea := ''s 153722868''\<rparr>) =
     Inr (startSession 0 workSession 153722868 (initialModel []), tickCmd) \<and>
   sint (timerDuration (startSession 0 workSession 153722868 (initialModel []))) =
     - 9223371993709551616 \<and>
   sint (timerDuration (startSession 0 workSession 153722868 (initialModel []))) \<noteq>
     153722868 * 60000000000 \<and>
   ''s 10'' = ''s '' @ decimal 10 \<and>
   phase ((startSession 0 breakSession 5 (initialModel []))
            \<lparr>opening' := False, textarea := ''s 10''\<rparr>) = Active \<and>
   Update (outside 1) (KeyMsg enterKey)
     ((startSession 0 breakSession 5 (initialModel []))
        \<lparr>opening' := False, textarea := ''s 10''\<rparr>) =
     Inr ((startSession 0 breakSession 5 (initialModel []))\<lparr>opening' := False\<rparr>, nilCmd) \<and>
   sessionType ((startSession 0 breakSession 5 (initialModel []))\<lparr>opening' := False\<rparr>) =
     breakSession \<and>
   timerDuration ((startSession 0 breakSession 5 (initialModel []))\<lparr>opening' := False\<rparr>) =
     5 * Minute"
proof -
  have "''s 153722868'' = ''s '' @ decimal 153722868"
    by (simp add: decimal.simps digitChar_def)
  moreover have "Update (outside 0) (KeyMsg enterKey) ((initialModel [])\<lparr>textarea := ''s 153722868''\<rparr>) =
     Inr (startSession 0 workSession 153722868 (initialModel []), tickCmd)"
    by (simp add: Update_def onKey_def handleCommand_def checkValidMinute_def atoi_def
        isDigit_def digit_def initialModel_def outside_def typing_def enterKey_def Matches_def
        keyString_def keys_def startSession_def)
  moreover have "sint (timerDuration (startSession 0 workSession 153722868 (initialModel []))) =
     - 9223371993709551616"
    by (simp add: startSession_def Minute_def)
  moreover have "phase ((initialModel [])\<lparr>textarea := ''s 153722868''\<rparr>) = Idle"
    by (simp add: phase_def initialModel_def)
  moreover have "''s 10'' = ''s '' @ decimal 10"
    by (simp add: decimal.simps digitChar_def)
  moreover have "phase ((startSession 0 breakSession 5 (initialModel []))
            \<lparr>opening' := False, textarea := ''s 10''\<rparr>) = Active"
    by (simp add: phase_def startSession_def)
  moreover have "Update (outside 1) (KeyMsg enterKey)
     ((startSession 0 breakSession 5 (initialModel []))
        \<lparr>opening' := False, textarea := ''s 10''\<rparr>) =
     Inr ((startSession 0 breakSession 5 (initialModel []))\<lparr>opening' := False\<rparr>, nilCmd)"
    by (simp add: Update_def onKey_def handleCommand_def checkValidMinute_def atoi_def
        isDigit_def digit_def initialModel_def outside_def typing_def enterKey_def Matches_def
        keyString_def keys_def startSession_def)
  moreover have "sessionType ((startSession 0 breakSession 5 (initialModel []))\<lparr>opening' := False\<rparr>) =
     breakSession"
    "timerDuration ((startSession 0 breakSession 5 (initialModel []))\<lparr>opening' := False\<rparr>) =
     5 * Minute"
    by (simp_all add: startSession_def)
  ultimately show ?thesis
    by simp
qed

subsection \<open>C10: the completed session stays in the list\<close>

text \<open>
  Claim C10. On the tick that completes a Work session the completed session is
  appended to \<^verbatim>\<open>m.sessions\<close> first, and \<^verbatim>\<open>saveSessions\<close> is called on the list that
  already holds it. Whatever the save answers, the list keeps the session, and so does
  the list after any further messages \<open>evs\<close> of the same run: a later list view prints a
  list that contains it.
\<close>

theorem completed_session_kept:
  assumes "completingTick m" and "sessionType m = workSession"
    and "run ((e, tickMsg) # evs) m = Inr m2"
  shows "\<exists>m1 later. Update e tickMsg m = Inr (m1, nilCmd) \<and>
           sessions m1 = sessions m @ [completed e m] \<and>
           err m1 = (case saveSessions e (sessions m @ [completed e m]) of
                       None \<Rightarrow> err m | Some s \<Rightarrow> s) \<and>
           run evs m1 = Inr m2 \<and>
           sessions m2 = sessions m @ [completed e m] @ later \<and>
           (showSession m2 \<longrightarrow>
              View ui m2 = [CHR 0x0A] @
                printSessions ui (sessions m @ [completed e m] @ later)
                  (printDifferentDate m2) (datePrint m2) @ [CHR 0x0A] @ stopHelp ui)"
proof -
  let ?m1 = "m\<lparr>textarea := textarea_Update e tickMsg (textarea m),
            remainingTime := remainingTime m - 1 * Second, closing := False, inSession := False,
            sessions := sessions m @ [completed e m],
            err := (case saveSessions e (sessions m @ [completed e m]) of
                      None \<Rightarrow> err m | Some s \<Rightarrow> s)\<rparr>"
  have u: "Update e tickMsg m = Inr (?m1, nilCmd)"
    using Update_completing [OF assms(1,2)] .
  with assms(3) have r: "run evs ?m1 = Inr m2"
    by simp
  from run_sessions_prefix [OF r] obtain later where
    l: "sessions m2 = (sessions m @ [completed e m]) @ later"
    by (auto simp: prefix_def)
  have "showSession m2 \<longrightarrow>
      View ui m2 = [CHR 0x0A] @
        printSessions ui (sessions m @ [completed e m] @ later)
          (printDifferentDate m2) (datePrint m2) @ [CHR 0x0A] @ stopHelp ui"
    using l by (simp add: View_def)
  with u r l show ?thesis
    by (intro exI [of _ ?m1] exI [of _ later]) simp
qed

theorem completed_session_kept_witness:
  "completingTick closingWork \<and> sessionType closingWork = workSession \<and>
   (\<exists>m2. run [(brokenDisk 9, tickMsg), (outside 10, KeyMsg (runeKey ''l'')),
              (outside 11, KeyMsg enterKey)] closingWork = Inr m2 \<and>
         showSession m2 \<and>
         sessions m2 = [\<lparr>StartTime = 0, EndTime = 9, Duration = 25 * Minute\<rparr>] \<and>
         View plainScreen m2 = [CHR 0x0A] @ ''*'' @ [CHR 0x0A] @ ''stop'')"
proof -
  have h1: "completingTick closingWork"
    unfolding completingTick_def Seconds_le_m4
    by (simp add: closingWork_def startSession_def Second_def)
  have h2: "sessionType closingWork = workSession"
    by (simp add: closingWork_def startSession_def)
  let ?m1 = "closingWork\<lparr>remainingTime := remainingTime closingWork - 1 * Second,
      closing := False, inSession := False,
      sessions := [\<lparr>StartTime = 0, EndTime = 9, Duration = 25 * Minute\<rparr>],
      err := ''permission denied''\<rparr>"
  have u1: "Update (brokenDisk 9) tickMsg closingWork = Inr (?m1, nilCmd)"
    using Update_completing [OF h1 h2, of "brokenDisk 9"]
    by (simp add: brokenDisk_def saveFails_def typing_def completed_def closingWork_def
        startSession_def initialModel_def)
  have f1: "\<not> inSession ?m1" "\<not> showSession ?m1" "textarea ?m1 = []"
    by (simp_all add: closingWork_def startSession_def initialModel_def)
  have u2: "Update (outside 10) (KeyMsg (runeKey ''l'')) ?m1 =
      Inr (?m1\<lparr>textarea := ''l'', err := []\<rparr>, nilCmd)"
    using f1 by (simp add: Update_def onKey_def outside_def typing_def runeKey_def)
  have u3: "Update (outside 11) (KeyMsg enterKey) (?m1\<lparr>textarea := ''l'', err := []\<rparr>) =
      Inr (?m1\<lparr>textarea := [], err := [], printDifferentDate := False, showSession := True\<rparr>,
           nilCmd)"
    using f1 by (simp add: Update_def onKey_def outside_def typing_def enterKey_def
        handleCommand_def)
  have r: "run [(brokenDisk 9, tickMsg), (outside 10, KeyMsg (runeKey ''l'')),
      (outside 11, KeyMsg enterKey)] closingWork =
      Inr (?m1\<lparr>textarea := [], err := [], printDifferentDate := False, showSession := True\<rparr>)"
    by (simp only: run.simps fst_conv snd_conv u1 u2 u3 sum.case)
  from completed_session_kept [OF h1 h2 r, of plainScreen] show ?thesis
    using h1 h2 r by (simp add: View_def plainScreen_def)
qed

end
